theory Spec2Isabelle
  imports Complex_Main "HOL-Library.Word" "HOL-Library.Log_Nat"
begin

section \<open>Common values: exceptions, pixels, images\<close>

text \<open>
  Python exceptions are values. Each constructor carries the message that \<open>str(e)\<close>
  returns. \<open>Cv2Error\<close> is OpenCV's \<open>cv2.error\<close>, \<open>EngineError\<close> any exception raised by
  the media engine (aiortc), \<open>JSONDecodeError\<close> what \<open>request.json()\<close> raises on a body
  that is not JSON.
\<close>

datatype exception =
    ValueError string
  | ZeroDivisionError string
  | Cv2Error string
  | JSONDecodeError string
  | AttributeError string
  | EngineError string

fun str :: "exception \<Rightarrow> string" where
  "str (ValueError m) = m"
| "str (ZeroDivisionError m) = m"
| "str (Cv2Error m) = m"
| "str (JSONDecodeError m) = m"
| "str (AttributeError m) = m"
| "str (EngineError m) = m"

text \<open>
  A frame is a numpy array of shape \<open>(height, width, 3)\<close> and dtype \<open>uint8\<close>: a list of
  rows, each a list of pixels, each pixel three bytes. A single-channel array (shape
  \<open>(height, width)\<close>) is a list of rows of bytes.
\<close>

type_synonym byte = "8 word"
type_synonym pixel = "byte \<times> byte \<times> byte"
type_synonym image = "pixel list list"
type_synonym gray_image = "byte list list"

definition img_height :: "'a list list \<Rightarrow> nat" where
  "img_height a = length a"

definition img_width :: "'a list list \<Rightarrow> nat" where
  "img_width a = (case a of [] \<Rightarrow> 0 | r # _ \<Rightarrow> length r)"

text \<open>Every row has the width of the array: the list of rows is a rectangular array.\<close>

definition rectangular :: "'a list list \<Rightarrow> bool" where
  "rectangular a = list_all (\<lambda>r. length r = img_width a) a"

section \<open>Python floats\<close>

text \<open>
  A Python float is an IEEE 754 binary64 number. A finite float is the real number it
  denotes, and an arithmetic operation on floats is the exact operation followed by
  rounding to the nearest number with a significand of 53 bits, a tie going to the even
  significand. The exponent is not bounded here: overflow to infinity, subnormal numbers
  and NaN are outside the model.

  \<open>round_half_even\<close> rounds a real to the nearest integer, \<open>pow2 k\<close> is \<open>2\<close> to the power
  \<open>k\<close>, \<open>float_exponent x\<close> is the exponent \<open>e\<close> with \<open>2^e \<le> |x| < 2^(e+1)\<close>, computed from
  the bit length of the integer part of \<open>|x|\<close> or of \<open>1/|x|\<close>, and \<open>double_round x\<close>
  scales \<open>x\<close> by the power of two that brings it into \<open>[2^52, 2^53)\<close>, rounds, and scales
  back.
\<close>

definition round_half_even :: "real \<Rightarrow> int" where
  "round_half_even x =
     (let f = \<lfloor>x\<rfloor>
      in if x - of_int f < 1 / 2 then f
         else if 1 / 2 < x - of_int f then f + 1
         else if even f then f else f + 1)"

definition pow2 :: "int \<Rightarrow> real" where
  "pow2 k = (if 0 \<le> k then 2 ^ nat k else 1 / 2 ^ nat (- k))"

definition float_exponent :: "real \<Rightarrow> int" where
  "float_exponent x =
     (if 1 \<le> \<bar>x\<bar> then bitlen \<lfloor>\<bar>x\<bar>\<rfloor> - 1 else - bitlen (\<lceil>1 / \<bar>x\<bar>\<rceil> - 1))"

definition double_round :: "real \<Rightarrow> real" where
  "double_round x =
     (if x = 0 then 0
      else (let e = float_exponent x
            in of_int (round_half_even (x / pow2 (e - 52))) * pow2 (e - 52)))"

text \<open>
  The operations the two programs use: \<open>x - y\<close>, \<open>x * y\<close> and \<open>x / y\<close> on floats (the
  division by zero, which raises, is tested where the division is made), the conversion
  \<open>float(n)\<close> that an integer operand of a float operation goes through, and the true
  division \<open>m / n\<close> of two integers, which gives the float nearest to the exact quotient.
\<close>

definition float_sub :: "real \<Rightarrow> real \<Rightarrow> real" where
  "float_sub x y = double_round (x - y)"

definition float_mul :: "real \<Rightarrow> real \<Rightarrow> real" where
  "float_mul x y = double_round (x * y)"

definition float_div :: "real \<Rightarrow> real \<Rightarrow> real" where
  "float_div x y = double_round (x / y)"

definition float_of_int :: "int \<Rightarrow> real" where
  "float_of_int n = double_round (of_int n)"

definition int_truediv :: "int \<Rightarrow> int \<Rightarrow> real" where
  "int_truediv m n = double_round (of_int m / of_int n)"

text \<open>Python's \<open>int(x)\<close> on a float truncates toward zero.\<close>

definition py_int :: "real \<Rightarrow> int" where
  "py_int x = (if 0 \<le> x then \<lfloor>x\<rfloor> else \<lceil>x\<rceil>)"

section \<open>publisher.py: SideBySideVideoTrack\<close>

text \<open>
  \<open>cv2.VideoCapture\<close>: whether the file opened, the properties \<open>cap.get\<close> returns (as
  floats), the frame that \<open>cap.read()\<close> decodes at each position (\<open>None\<close> where reading
  fails), and the current position. \<open>seeks\<close> is a history of the positions passed to
  \<open>cap.set(cv2.CAP_PROP_POS_FRAMES, _)\<close>, most recent first; the program does not read it.
\<close>

record video_capture =
  isOpened :: bool
  prop_fps :: real
  prop_frame_width :: real
  prop_frame_height :: real
  prop_frame_count :: real
  frames :: "int \<Rightarrow> image option"
  pos :: int
  seeks :: "int list"

definition cap_set :: "video_capture \<Rightarrow> int \<Rightarrow> video_capture" where
  "cap_set c n = c\<lparr>pos := n, seeks := n # seeks c\<rparr>"

definition cap_read :: "video_capture \<Rightarrow> image option \<times> video_capture" where
  "cap_read c = (case frames c (pos c) of
                   None \<Rightarrow> (None, c)
                 | Some f \<Rightarrow> (Some f, c\<lparr>pos := pos c + 1\<rparr>))"

text \<open>
  The fields of a \<open>SideBySideVideoTrack\<close> object; \<open>video_width\<close> and \<open>video_height\<close> are
  \<open>self.width\<close> and \<open>self.height\<close>.
\<close>

record track =
  cap :: video_capture
  fps :: real
  video_width :: int
  video_height :: int
  frame_count :: int
  frame_duration :: real
  start_time :: "real option"
  frame_index :: int
  kind :: string

text \<open>
  \<open>SideBySideVideoTrack.__init__\<close>; the argument is what \<open>cv2.VideoCapture(video_path)\<close>
  gave. Line 25 raises when the file did not open (its message ends with the path, which
  is left out). Line 36 computes \<open>1.0 / self.fps\<close> and stores the float, and Python raises
  \<open>ZeroDivisionError\<close> when a float is divided by zero.
\<close>

definition SideBySideVideoTrack :: "video_capture \<Rightarrow> exception + track" where
  "SideBySideVideoTrack c =
     (if \<not> isOpened c then Inl (ValueError ''Could not open video file'')
      else if prop_fps c = 0 then Inl (ZeroDivisionError ''float division by zero'')
      else Inr \<lparr>cap = c,
                fps = prop_fps c,
                video_width = py_int (prop_frame_width c),
                video_height = py_int (prop_frame_height c),
                frame_count = py_int (prop_frame_count c),
                frame_duration = float_div 1 (prop_fps c),
                start_time = None,
                frame_index = 0,
                kind = ''video''\<rparr>)"

text \<open>
  \<open>av.VideoFrame\<close> as \<open>recv\<close> returns it: the pixel data, the presentation timestamp and
  the time base (a \<open>fractions.Fraction\<close>).
\<close>

record av_frame =
  data :: image
  pts :: int
  time_base :: rat

text \<open>\<open>cv2.cvtColor(frame, cv2.COLOR_BGR2RGB)\<close>; it raises on \<open>None\<close>.\<close>

definition bgr2rgb :: "pixel \<Rightarrow> pixel" where
  "bgr2rgb p = (case p of (b, g, r) \<Rightarrow> (r, g, b))"

definition cvtColor_BGR2RGB :: "image option \<Rightarrow> exception + image" where
  "cvtColor_BGR2RGB frame =
     (case frame of
        None \<Rightarrow> Inl (Cv2Error ''(-215:Assertion failed) !_src.empty() in function cvtColor'')
      | Some f \<Rightarrow> Inr (map (map bgr2rgb) f))"

text \<open>
  The wall clock is an input. One call of \<open>recv\<close> reads \<open>time.time()\<close> up to three times:
  \<open>t_first\<close> at line 45 (only when \<open>start_time\<close> is \<open>None\<close>), \<open>t_now\<close> at line 48, and
  \<open>t_loop\<close> at line 54 (only when the video loops).
\<close>

record clock =
  t_first :: real
  t_now :: real
  t_loop :: real

text \<open>
  Lines 44 to 48 of \<open>recv\<close>: \<open>started\<close> is \<open>self.start_time\<close> after line 45, and
  \<open>current_time\<close> the local variable of line 48.
\<close>

definition started :: "track \<Rightarrow> clock \<Rightarrow> real" where
  "started self clk = (case start_time self of None \<Rightarrow> t_first clk | Some s \<Rightarrow> s)"

definition current_time :: "track \<Rightarrow> clock \<Rightarrow> real" where
  "current_time self clk = float_sub (t_now clk) (started self clk)"

text \<open>
  Lines 44 to 55 of \<open>recv\<close>: the start time, the elapsed time, the target frame and the
  loop. The result is the local variable \<open>target_frame\<close> after line 55 and the object.
\<close>

definition pacing :: "track \<Rightarrow> clock \<Rightarrow> int \<times> track" where
  "pacing self clk =
     (let self1 = (case start_time self of
                     None \<Rightarrow> self\<lparr>start_time := Some (t_first clk)\<rparr>
                   | Some _ \<Rightarrow> self);
          target_frame = py_int (float_mul (current_time self clk) (fps self1))
      in if target_frame \<ge> frame_count self1
         then (0, self1\<lparr>cap := cap_set (cap self1) 0, start_time := Some (t_loop clk)\<rparr>)
         else (target_frame, self1))"

text \<open>
  Lines 57 to 65: seek to the target, read, and on failure seek to 0 and read again.
\<close>

definition seek_and_read :: "track \<Rightarrow> int \<Rightarrow> image option \<times> track" where
  "seek_and_read self target_frame =
     (let c1 = cap_set (cap self) target_frame;
          (frame, c2) = cap_read c1
      in case frame of
           Some f \<Rightarrow> (Some f, self\<lparr>cap := c2\<rparr>)
         | None \<Rightarrow> (let c3 = cap_set c2 0;
                        (frame', c4) = cap_read c3
                    in (frame', self\<lparr>cap := c4\<rparr>)))"

text \<open>
  \<open>SideBySideVideoTrack.recv\<close>. The object is returned also when the call raises: its
  fields were already assigned. Line 72 multiplies from left to right:
  \<open>target_frame\<close>, converted to a float, by the stored \<open>frame_duration\<close>, and the rounded
  product by 90000.
\<close>

definition recv :: "track \<Rightarrow> clock \<Rightarrow> (exception + av_frame) \<times> track" where
  "recv self clk =
     (let (target_frame, self2) = pacing self clk;
          (frame, self3) = seek_and_read self2 target_frame
      in case cvtColor_BGR2RGB frame of
           Inl e \<Rightarrow> (Inl e, self3)
         | Inr frame_rgb \<Rightarrow>
             (Inr \<lparr>data = frame_rgb,
                   pts = py_int (float_mul (float_mul (float_of_int target_frame)
                                               (frame_duration self3)) 90000),
                   time_base = 1 / 90000\<rparr>,
              self3))"

text \<open>A sequence of \<open>recv\<close> calls on one track, one clock record per call.\<close>

fun recv_calls :: "track \<Rightarrow> clock list \<Rightarrow> track" where
  "recv_calls self [] = self"
| "recv_calls self (clk # clks) = recv_calls (snd (recv self clk)) clks"

section \<open>receiver.py: numpy slicing and assignment\<close>

text \<open>
  A slice bound of an axis of length \<open>n\<close>: a negative bound counts from the end, and
  every bound is clipped to \<open>[0, n]\<close>.
\<close>

definition norm_index :: "nat \<Rightarrow> int \<Rightarrow> nat" where
  "norm_index n i = (if i < 0 then nat (max 0 (i + int n)) else min (nat i) n)"

text \<open>
  The slice \<open>start:stop\<close> of an axis of length \<open>n\<close>, as the index of its first element and
  its length; \<open>None\<close> is an omitted bound. A slice whose stop is not after its start is empty.
\<close>

definition slice_bounds :: "nat \<Rightarrow> int option \<Rightarrow> int option \<Rightarrow> nat \<times> nat" where
  "slice_bounds n start stop =
     (let lo = (case start of None \<Rightarrow> 0 | Some i \<Rightarrow> norm_index n i);
          hi = (case stop of None \<Rightarrow> n | Some j \<Rightarrow> norm_index n j)
      in (lo, hi - lo))"

definition slice :: "'a list \<Rightarrow> int option \<Rightarrow> int option \<Rightarrow> 'a list" where
  "slice xs start stop =
     (case slice_bounds (length xs) start stop of (lo, len) \<Rightarrow> take len (drop lo xs))"

text \<open>\<open>a[:, start:stop]\<close>: the same columns of every row.\<close>

definition cols :: "'a list list \<Rightarrow> int option \<Rightarrow> int option \<Rightarrow> 'a list list" where
  "cols a start stop = map (\<lambda>r. slice r start stop) a"

text \<open>
  Broadcasting along one axis: a value of the length asked for is taken as it is, a value
  of length 1 is repeated.
\<close>

definition stretch :: "nat \<Rightarrow> 'a list \<Rightarrow> 'a list" where
  "stretch n xs = (if length xs = n then xs else replicate n (hd xs))"

text \<open>
  \<open>a[rs:re, cs:ce] = v\<close>. numpy broadcasts \<open>v\<close> to the shape of the region: each axis of
  \<open>v\<close> must have the length of the region's axis or length 1, else it raises
  \<open>ValueError\<close>. Rows and columns outside the region are kept. (A list without rows carries
  no width; \<open>cv2.resize\<close> and \<open>cv2.cvtColor\<close> reject empty arrays, so no such value is
  assigned by \<open>process_3d_frame\<close>.)
\<close>

definition assign_region ::
  "'a list list \<Rightarrow> int option \<Rightarrow> int option \<Rightarrow> int option \<Rightarrow> int option \<Rightarrow> 'a list list
     \<Rightarrow> exception + 'a list list" where
  "assign_region a rs re cs ce v =
     (case slice_bounds (img_height a) rs re of (r0, nr) \<Rightarrow>
      case slice_bounds (img_width a) cs ce of (c0, nc) \<Rightarrow>
        if (img_height v = nr \<or> img_height v = 1) \<and> (img_width v = nc \<or> img_width v = 1)
        then Inr (take r0 a
                  @ map2 (\<lambda>row vals. take c0 row @ vals @ drop (c0 + nc) row)
                      (take nr (drop r0 a)) (stretch nr (map (stretch nc) v))
                  @ drop (r0 + nr) a)
        else Inl (ValueError ''could not broadcast input array''))"

text \<open>
  \<open>np.zeros_like(a)\<close>, on a frame and on a single-channel array, and
  \<open>np.zeros((height, width, 3), dtype=np.uint8)\<close>.
\<close>

definition zeros_like :: "image \<Rightarrow> image" where
  "zeros_like a = map (map (\<lambda>_. (0, 0, 0))) a"

definition zeros_like_gray :: "gray_image \<Rightarrow> gray_image" where
  "zeros_like_gray a = map (map (\<lambda>_. 0)) a"

definition zeros :: "nat \<Rightarrow> nat \<Rightarrow> pixel list list" where
  "zeros h w = replicate h (replicate w (0, 0, 0))"

text \<open>
  \<open>a[:, :, k] = g\<close> with \<open>g\<close> of the shape of one channel of \<open>a\<close>, as it is at every such
  assignment of \<open>process_3d_frame\<close>: channel \<open>k\<close> of every pixel is overwritten.
\<close>

definition set_ch :: "nat \<Rightarrow> pixel \<Rightarrow> byte \<Rightarrow> pixel" where
  "set_ch k p v = (case p of (r, g, b) \<Rightarrow>
                     if k = 0 then (v, g, b) else if k = 1 then (r, v, b) else (r, g, v))"

definition assign_channel :: "nat \<Rightarrow> image \<Rightarrow> gray_image \<Rightarrow> image" where
  "assign_channel k a g = map2 (map2 (set_ch k)) a g"

section \<open>receiver.py: OpenCV\<close>

text \<open>
  The two OpenCV functions that \<open>process_3d_frame\<close> calls are parameters: \<open>resize_impl src
  dw dh\<close> is the interpolation of \<open>cv2.resize(src, (dw, dh))\<close>, and \<open>gray_impl\<close> the
  luminance that \<open>cv2.cvtColor(_, cv2.COLOR_RGB2GRAY)\<close> computes for one pixel.
\<close>

record opencv =
  resize_impl :: "image \<Rightarrow> nat \<Rightarrow> nat \<Rightarrow> image"
  gray_impl :: "pixel \<Rightarrow> byte"

text \<open>\<open>cv2.resize\<close> raises on an empty source and on a target size that is not positive.\<close>

definition cv2_resize :: "opencv \<Rightarrow> image \<Rightarrow> int \<times> int \<Rightarrow> exception + image" where
  "cv2_resize cv src dsize =
     (case dsize of (dw, dh) \<Rightarrow>
        if img_height src = 0 \<or> img_width src = 0
        then Inl (Cv2Error ''(-215:Assertion failed) !ssize.empty() in function resize'')
        else if dw \<le> 0 \<or> dh \<le> 0
        then Inl (Cv2Error ''(-215:Assertion failed) !dsize.empty() in function resize'')
        else Inr (resize_impl cv src (nat dw) (nat dh)))"

text \<open>\<open>cv2.cvtColor(frame, cv2.COLOR_RGB2GRAY)\<close> raises on an empty source.\<close>

definition cvtColor_RGB2GRAY :: "opencv \<Rightarrow> image \<Rightarrow> exception + gray_image" where
  "cvtColor_RGB2GRAY cv frame =
     (if img_height frame = 0 \<or> img_width frame = 0
      then Inl (Cv2Error ''(-215:Assertion failed) !_src.empty() in function cvtColor'')
      else Inr (map (map (gray_impl cv)) frame))"

text \<open>
  What the interpolation is relied on for: a result of the size asked for. It is a
  hypothesis of the theorems on the side-by-side modes.
\<close>

definition resize_ok :: "opencv \<Rightarrow> bool" where
  "resize_ok cv = (\<forall>src dw dh. 0 < dw \<and> 0 < dh \<longrightarrow>
                     length (resize_impl cv src dw dh) = dh
                     \<and> list_all (\<lambda>r. length r = dw) (resize_impl cv src dw dh))"

section \<open>receiver.py: VideoReceiver.process_3d_frame\<close>

text \<open>The two Tk variables that \<open>process_3d_frame\<close> reads.\<close>

record receiver =
  mode_var :: string
  offset_var :: int

text \<open>
  \<open>int((width//2) * height / (width - offset))\<close>: true division of two integers, which
  raises \<open>ZeroDivisionError\<close> on a zero divisor, then truncation.
\<close>

definition new_height_of :: "int \<Rightarrow> int \<Rightarrow> int \<Rightarrow> exception + int" where
  "new_height_of width height offset =
     (if width - offset = 0 then Inl (ZeroDivisionError ''division by zero'')
      else Inr (py_int (int_truediv ((width div 2) * height) (width - offset))))"

text \<open>
  The block that both side-by-side modes run once for each half (lines 248 to 254, 258 to
  264, 280 to 286, 290 to 296): compute \<open>new_height\<close>, resize the trimmed frame \<open>half\<close> to
  \<open>(width//2, new_height)\<close>, compute \<open>y_offset\<close>, and assign the result to the rows
  \<open>y_offset:y_offset+new_height\<close> and the columns \<open>cs:ce\<close> of \<open>side_by_side\<close>.
\<close>

definition place_half ::
  "opencv \<Rightarrow> image \<Rightarrow> int \<Rightarrow> image \<Rightarrow> image \<Rightarrow> int option \<Rightarrow> int option \<Rightarrow> exception + image" where
  "place_half cv frame offset side_by_side half cs ce =
     (let height = int (img_height frame); width = int (img_width frame)
      in case new_height_of width height offset of
           Inl e \<Rightarrow> Inl e
         | Inr new_height \<Rightarrow>
             (case cv2_resize cv half (width div 2, new_height) of
                Inl e \<Rightarrow> Inl e
              | Inr half_resized \<Rightarrow>
                  (let y_offset = (height - new_height) div 2
                   in assign_region side_by_side (Some y_offset) (Some (y_offset + new_height))
                        cs ce half_resized)))"

text \<open>
  Lines 319 to 320 and 343 to 344: \<open>right_shifted\<close>, the luminance shifted right by
  \<open>offset\<close> columns over zeros.
\<close>

definition right_shifted_of :: "gray_image \<Rightarrow> int \<Rightarrow> exception + gray_image" where
  "right_shifted_of gray_frame offset =
     assign_region (zeros_like_gray gray_frame) None None (Some offset) None
       (if offset > 0 then cols gray_frame None (Some (- offset)) else gray_frame)"

definition process_3d_frame :: "opencv \<Rightarrow> receiver \<Rightarrow> image \<Rightarrow> exception + image" where
  "process_3d_frame cv self frame =
     (let height = img_height frame; width = img_width frame;
          mode = mode_var self
      in if mode = ''side_by_side_cross_eye'' then
           (let side_by_side = zeros_like frame;
                offset = offset_var self;
                left_half = cols frame (Some offset) None
            in case place_half cv frame offset side_by_side left_half
                      None (Some (int width div 2)) of
                 Inl e \<Rightarrow> Inl e
               | Inr side_by_side1 \<Rightarrow>
                   (let right_half = cols frame None (Some (- offset))
                    in place_half cv frame offset side_by_side1 right_half
                         (Some (int width div 2)) None))
         else if mode = ''side_by_side_parallel'' then
           (let side_by_side = zeros_like frame;
                offset = offset_var self;
                left_half = cols frame None (Some (- offset))
            in case place_half cv frame offset side_by_side left_half
                      None (Some (int width div 2)) of
                 Inl e \<Rightarrow> Inl e
               | Inr side_by_side1 \<Rightarrow>
                   (let right_half = cols frame (Some offset) None
                    in place_half cv frame offset side_by_side1 right_half
                         (Some (int width div 2)) None))
         else if mode = ''anaglyph_red_cyan'' then
           (let anaglyph = zeros height width
            in case cvtColor_RGB2GRAY cv frame of
                 Inl e \<Rightarrow> Inl e
               | Inr gray_frame \<Rightarrow>
                   (let offset = offset_var self;
                        anaglyph0 = assign_channel 0 anaglyph gray_frame
                    in case right_shifted_of gray_frame offset of
                         Inl e \<Rightarrow> Inl e
                       | Inr right_shifted \<Rightarrow>
                           Inr (assign_channel 2
                                  (assign_channel 1 anaglyph0 right_shifted) right_shifted)))
         else if mode = ''anaglyph_green_magenta'' then
           (let anaglyph = zeros height width
            in case cvtColor_RGB2GRAY cv frame of
                 Inl e \<Rightarrow> Inl e
               | Inr gray_frame \<Rightarrow>
                   (let offset = offset_var self;
                        anaglyph1 = assign_channel 1 anaglyph gray_frame
                    in case right_shifted_of gray_frame offset of
                         Inl e \<Rightarrow> Inl e
                       | Inr right_shifted \<Rightarrow>
                           Inr (assign_channel 2
                                  (assign_channel 0 anaglyph1 right_shifted) right_shifted)))
         else Inr frame)"

section \<open>Relations between the display modes\<close>

text \<open>
  The two side-by-side modes run the same two blocks on the two trimmed frames, in
  opposite order: \<open>two_halves\<close> is that composition, the first trimmed frame placed in
  the columns \<open>:width//2\<close> and the second in the columns \<open>width//2:\<close>.
\<close>

definition two_halves :: "opencv \<Rightarrow> image \<Rightarrow> int \<Rightarrow> image \<Rightarrow> image \<Rightarrow> exception + image" where
  "two_halves cv frame offset first_half second_half =
     (case place_half cv frame offset (zeros_like frame) first_half
             None (Some (int (img_width frame) div 2)) of
        Inl e \<Rightarrow> Inl e
      | Inr side_by_side1 \<Rightarrow>
          place_half cv frame offset side_by_side1 second_half
            (Some (int (img_width frame) div 2)) None)"

text \<open>
  The output of a side-by-side mode written out: \<open>r0\<close> black rows, the rows of the two
  resized halves side by side, and black rows up to the height \<open>h\<close>.
\<close>

definition two_halves_rows :: "nat \<Rightarrow> nat \<Rightarrow> nat \<Rightarrow> nat \<Rightarrow> image \<Rightarrow> image \<Rightarrow> image" where
  "two_halves_rows h w r0 nr L R =
     replicate r0 (replicate w (0, 0, 0)) @ map2 (@) L R
     @ replicate (h - (r0 + nr)) (replicate w (0, 0, 0))"

text \<open>Swapping the left half, columns \<open>[0, width/2)\<close>, and the right half of every row.\<close>

definition swap_halves :: "image \<Rightarrow> image" where
  "swap_halves a = map (\<lambda>row. drop (length row div 2) row @ take (length row div 2) row) a"

text \<open>Swapping the red and the green channel of a pixel, and of a channel index.\<close>

definition swap_red_green :: "pixel \<Rightarrow> pixel" where
  "swap_red_green p = (case p of (r, g, b) \<Rightarrow> (g, r, b))"

definition swap_channel :: "nat \<Rightarrow> nat" where
  "swap_channel k = (if k = 0 then 1 else if k = 1 then 0 else k)"

text \<open>
  A row of luminance shifted right by \<open>k\<close> columns, the first \<open>k\<close> columns zero; and the
  red-cyan anaglyph of a row built from it: the luminance in the red channel, the shifted
  luminance in the green and the blue channel.
\<close>

definition shift_right :: "nat \<Rightarrow> byte list \<Rightarrow> byte list" where
  "shift_right k xs = replicate (min k (length xs)) 0 @ take (length xs - k) xs"

definition red_cyan_row :: "opencv \<Rightarrow> nat \<Rightarrow> pixel list \<Rightarrow> pixel list" where
  "red_cyan_row cv k row =
     map2 (\<lambda>p s. (gray_impl cv p, s, s)) row (shift_right k (map (gray_impl cv) row))"

text \<open>The number of black rows at the top and at the bottom of a frame.\<close>

definition black_row :: "pixel list \<Rightarrow> bool" where
  "black_row row = list_all (\<lambda>p. p = (0, 0, 0)) row"

definition top_margin :: "image \<Rightarrow> nat" where
  "top_margin a = length (takeWhile black_row a)"

definition bottom_margin :: "image \<Rightarrow> nat" where
  "bottom_margin a = length (takeWhile black_row (rev a))"

section \<open>publisher.py: WebRTCPublisher and the offer handler\<close>

text \<open>
  \<open>RTCSessionDescription\<close>: the fields \<open>sdp\<close> and \<open>type\<close> (here \<open>kind_of\<close>, since \<open>type\<close>
  is not a name Isabelle accepts).
\<close>

record description =
  sdp :: string
  kind_of :: string

text \<open>
  The media engine (aiortc) is a parameter: its peer-connection objects are values of a
  type \<open>'pc\<close>, and each operation that the publisher calls is a function on them that
  returns the exception it raises or the connection as the call leaves it.
  \<open>session_description\<close> is the constructor \<open>RTCSessionDescription(sdp=_, type=_)\<close>.
\<close>

record 'pc engine =
  RTCPeerConnection :: "'pc"
  addTransceiver :: "'pc \<Rightarrow> track \<Rightarrow> 'pc"
  session_description :: "string \<Rightarrow> string \<Rightarrow> exception + description"
  setRemoteDescription :: "'pc \<Rightarrow> description \<Rightarrow> exception + 'pc"
  createAnswer :: "'pc \<Rightarrow> exception + description"
  setLocalDescription :: "'pc \<Rightarrow> description \<Rightarrow> exception + 'pc"
  localDescription :: "'pc \<Rightarrow> description option"

text \<open>The fields of a \<open>WebRTCPublisher\<close> that the handlers assign.\<close>

record 'pc publisher =
  pc :: "'pc option"
  video_track :: "track option"

text \<open>
  \<open>_reset_connection\<close>: the connection is closed (an exception of \<open>close\<close> is logged and
  dropped) and both fields are set to \<open>None\<close>.
\<close>

definition reset_connection :: "'pc publisher \<Rightarrow> 'pc publisher" where
  "reset_connection self = self\<lparr>pc := None, video_track := None\<rparr>"

text \<open>
  \<open>_create_new_connection\<close>; \<open>c\<close> is what \<open>cv2.VideoCapture(self.video_path)\<close> gives. The
  object is returned also when the constructor of the track raises.
\<close>

definition create_new_connection ::
  "'pc engine \<Rightarrow> video_capture \<Rightarrow> 'pc publisher \<Rightarrow> (exception + 'pc) \<times> 'pc publisher" where
  "create_new_connection eng c self =
     (let self1 = reset_connection self;
          self2 = self1\<lparr>pc := Some (RTCPeerConnection eng)\<rparr>
      in case SideBySideVideoTrack c of
           Inl e \<Rightarrow> (Inl e, self2)
         | Inr t \<Rightarrow>
             (let pc' = addTransceiver eng (RTCPeerConnection eng) t
              in (Inr pc', self2\<lparr>pc := Some pc', video_track := Some t\<rparr>)))"

text \<open>
  The body of a request as \<open>request.json()\<close> sees it: not JSON (the call raises), or a JSON
  object, a dictionary from keys to values. Values are strings.
\<close>

datatype request_body = NotJson | JsonObject "string \<rightharpoonup> string"

text \<open>
  \<open>web.Response\<close>: the status, the content type and the body, which is the text given or
  the JSON text that \<open>json.dumps\<close> writes for a dictionary (kept as the list of its items).
\<close>

datatype body = PlainText string | JsonText "(string \<times> string) list"

record response =
  status :: nat
  content_type :: string
  body :: body

text \<open>The \<open>except Exception as e\<close> branch of \<open>offer_handler\<close>.\<close>

definition error_response :: "exception \<Rightarrow> response" where
  "error_response e = \<lparr>status = 500, content_type = ''text/plain'', body = PlainText (str e)\<rparr>"

text \<open>
  \<open>offer_handler\<close>, one request at a time (the handler holds \<open>_connection_lock\<close>). The
  result is the response and the publisher as the request leaves it. The test \<open>pc is None\<close>
  of line 190 cannot succeed and has no branch here.
\<close>

definition offer_handler ::
  "'pc engine \<Rightarrow> video_capture \<Rightarrow> 'pc publisher \<Rightarrow> request_body \<Rightarrow> response \<times> 'pc publisher" where
  "offer_handler eng c self request =
     (case request of
        NotJson \<Rightarrow> (error_response (JSONDecodeError ''Expecting value''), self)
      | JsonObject params \<Rightarrow>
          (case (params ''sdp'', params ''type'') of
             (Some sdp_data, Some sdp_type) \<Rightarrow>
               (case session_description eng sdp_data sdp_type of
                  Inl e \<Rightarrow> (error_response e, self)
                | Inr offer \<Rightarrow>
                    (case create_new_connection eng c self of
                       (Inl e, self1) \<Rightarrow> (error_response e, self1)
                     | (Inr pc0, self1) \<Rightarrow>
                         (case setRemoteDescription eng pc0 offer of
                            Inl e \<Rightarrow> (error_response e, self1)
                          | Inr pc1 \<Rightarrow>
                              (let self2 = self1\<lparr>pc := Some pc1\<rparr>
                               in case createAnswer eng pc1 of
                                    Inl e \<Rightarrow> (error_response e, self2)
                                  | Inr answer \<Rightarrow>
                                      (case setLocalDescription eng pc1 answer of
                                         Inl e \<Rightarrow> (error_response e, self2)
                                       | Inr pc2 \<Rightarrow>
                                           (let self3 = self2\<lparr>pc := Some pc2\<rparr>
                                            in case localDescription eng pc2 of
                                                 None \<Rightarrow>
                                                   (error_response (AttributeError
                                                      ''NoneType object has no attribute sdp''),
                                                    self3)
                                               | Some d \<Rightarrow>
                                                   (\<lparr>status = 200,
                                                     content_type = ''application/json'',
                                                     body = JsonText [(''sdp'', sdp d),
                                                                      (''type'', kind_of d)]\<rparr>,
                                                    self3)))))))
           | _ \<Rightarrow> (error_response (ValueError ''Missing required SDP parameters''), self)))"

section \<open>Example inputs\<close>

text \<open>
  A one-row frame, and a 100-frame asset at 24 frames per second whose frame 3 cannot be
  decoded; the track that \<open>SideBySideVideoTrack\<close> builds from it. Its \<open>frame_duration\<close> is
  the float nearest to 1/24, which is \<open>6004799503160661 / 2^57\<close>, a little below 1/24.
\<close>

definition ex_image :: image where
  "ex_image = [[(1, 2, 3), (4, 5, 6)]]"

definition ex_capture :: video_capture where
  "ex_capture = \<lparr>isOpened = True, prop_fps = 24, prop_frame_width = 2,
                  prop_frame_height = 1, prop_frame_count = 100,
                  frames = (\<lambda>i. if 0 \<le> i \<and> i < 100 \<and> i \<noteq> 3 then Some ex_image else None),
                  pos = 0, seeks = []\<rparr>"

definition ex_track :: track where
  "ex_track = \<lparr>cap = ex_capture, fps = 24, video_width = 2, video_height = 1,
                frame_count = 100,
                frame_duration = 6004799503160661 / 2 ^ 57, start_time = None,
                frame_index = 0, kind = ''video''\<rparr>"

text \<open>
  The same asset at 64 frames per second, where \<open>frame_duration\<close> is exactly 1/64, and
  reporting a frame rate of zero.
\<close>

definition fast_capture :: video_capture where
  "fast_capture = ex_capture\<lparr>prop_fps := 64\<rparr>"

definition fast_track :: track where
  "fast_track = ex_track\<lparr>cap := fast_capture, fps := 64, frame_duration := 1 / 64\<rparr>"

definition zero_fps_capture :: video_capture where
  "zero_fps_capture = ex_capture\<lparr>prop_fps := 0\<rparr>"

text \<open>
  Clock readings of one call, all of them floats: 1/16 s after the start (frame 1 at 24
  frames per second), 9/64 s after the start (frame 3), 19/64 s after the start (frame 7),
  and 10 s after the start (past the end of the 100 frames).
\<close>

definition ex_clock :: clock where
  "ex_clock = \<lparr>t_first = 1000, t_now = 1000 + 1 / 16, t_loop = 1000 + 1 / 8\<rparr>"

definition bad_frame_clock :: clock where
  "bad_frame_clock = \<lparr>t_first = 1000, t_now = 1000 + 9 / 64, t_loop = 1000 + 1 / 4\<rparr>"

definition seventh_clock :: clock where
  "seventh_clock = \<lparr>t_first = 1000, t_now = 1000 + 19 / 64, t_loop = 1000 + 1 / 2\<rparr>"

definition late_clock :: clock where
  "late_clock = \<lparr>t_first = 1000, t_now = 1010, t_loop = 1010 + 1 / 1024\<rparr>"

text \<open>
  An instance of the two OpenCV functions, to run the transform on examples:
  nearest-neighbour interpolation, and an integer approximation of the luminance.
\<close>

definition nn_resize :: "image \<Rightarrow> nat \<Rightarrow> nat \<Rightarrow> image" where
  "nn_resize src dw dh =
     map (\<lambda>y. map (\<lambda>x. src ! (y * img_height src div dh) ! (x * img_width src div dw)) [0..<dw])
       [0..<dh]"

definition luma :: "pixel \<Rightarrow> byte" where
  "luma p = (case p of (r, g, b) \<Rightarrow>
               of_nat ((77 * unat r + 150 * unat g + 29 * unat b) div 256))"

definition ex_cv :: opencv where
  "ex_cv = \<lparr>resize_impl = nn_resize, gray_impl = luma\<rparr>"

text \<open>
  A frame of one row and twenty columns, the red channel counting the columns; a
  480 by 640 frame that is white everywhere.
\<close>

definition ex_frame :: image where
  "ex_frame = [map (\<lambda>i. (of_nat i, 0, 0)) [0..<20]]"

definition white_frame :: image where
  "white_frame = replicate 480 (replicate 640 (255, 255, 255))"

text \<open>A frame of one row and seven columns.\<close>

definition ex_strip :: image where
  "ex_strip = [[(10, 20, 30), (40, 50, 60), (70, 80, 90), (100, 110, 120), (130, 140, 150),
                (160, 170, 180), (190, 200, 210)]]"


text \<open>
  A frame of two rows and twenty columns, the red channel counting the columns and the
  green channel the rows.
\<close>

definition two_row_frame :: image where
  "two_row_frame = [map (\<lambda>i. (of_nat i, 0, 0)) [0..<20], map (\<lambda>i. (of_nat i, 1, 0)) [0..<20]]"
text \<open>
  An engine to run the handler on examples: a connection is the pair of its remote and
  its local description, every description of a known type is accepted, and the answer
  is a fixed description.
\<close>

definition ex_engine :: "(description option \<times> description option) engine" where
  "ex_engine =
     \<lparr>RTCPeerConnection = (None, None),
      addTransceiver = (\<lambda>p t. p),
      session_description =
        (\<lambda>s t. if t \<in> {''offer'', ''pranswer'', ''answer'', ''rollback''}
               then Inr \<lparr>sdp = s, kind_of = t\<rparr>
               else Inl (ValueError ''Unexpected SDP type'')),
      setRemoteDescription = (\<lambda>p d. Inr (Some d, snd p)),
      createAnswer = (\<lambda>p. Inr \<lparr>sdp = ''v=0 answer'', kind_of = ''answer''\<rparr>),
      setLocalDescription = (\<lambda>p d. Inr (fst p, Some d)),
      localDescription = snd\<rparr>"

definition idle_publisher :: "(description option \<times> description option) publisher" where
  "idle_publisher = \<lparr>pc = None, video_track = None\<rparr>"

section \<open>Properties of the float operations\<close>

subsection \<open>Rounding to the nearest integer and to the nearest float\<close>

lemma pow2_powr: "pow2 k = 2 powr of_int k"
proof (cases "0 \<le> k")
  case True
  then have "2 powr of_int k = (2 :: real) powr real (nat k)" by simp
  also have "\<dots> = 2 ^ nat k" by (rule powr_realpow) simp
  finally show ?thesis using True by (simp add: pow2_def)
next
  case False
  then have "2 powr of_int k = (2 :: real) powr (- real (nat (- k)))" by simp
  also have "\<dots> = 1 / 2 powr real (nat (- k))" by (simp add: powr_minus divide_inverse)
  also have "2 powr real (nat (- k)) = (2 :: real) ^ nat (- k)" by (rule powr_realpow) simp
  finally show ?thesis using False by (simp add: pow2_def)
qed

lemma pow2_pos: "0 < pow2 k"
  by (simp add: pow2_powr)

lemma pow2_add: "pow2 (j + k) = pow2 j * pow2 k"
  by (simp add: pow2_powr powr_add)

lemma pow2_nat: "0 \<le> k \<Longrightarrow> pow2 k = of_int (2 ^ nat k)"
  by (simp add: pow2_def)

lemma round_half_even_int: "round_half_even (of_int m) = m"
  by (simp add: round_half_even_def)

lemma round_half_even_error: "\<bar>of_int (round_half_even x) - x\<bar> \<le> 1 / 2"
  unfolding round_half_even_def Let_def by (auto; linarith)

lemma exponent_lower:
  assumes "x \<noteq> 0"
  shows "pow2 \<lfloor>log 2 \<bar>x\<bar>\<rfloor> \<le> \<bar>x\<bar>"
proof -
  have "of_int \<lfloor>log 2 \<bar>x\<bar>\<rfloor> \<le> log 2 \<bar>x\<bar>" by simp
  then have "2 powr of_int \<lfloor>log 2 \<bar>x\<bar>\<rfloor> \<le> 2 powr (log 2 \<bar>x\<bar>)"
    by (simp only: powr_le_cancel_iff one_less_numeral_iff semiring_norm)
  also have "\<dots> = \<bar>x\<bar>" using assms by (intro powr_log_cancel) simp_all
  finally show ?thesis by (simp only: pow2_powr)
qed

lemma exponent_eq:
  assumes "pow2 e \<le> \<bar>x\<bar>" and "\<bar>x\<bar> < pow2 (e + 1)"
  shows "\<lfloor>log 2 \<bar>x\<bar>\<rfloor> = e"
proof -
  have pos: "0 < \<bar>x\<bar>" using assms(1) pow2_pos[of e] by linarith
  have "2 powr of_int e \<le> 2 powr (log 2 \<bar>x\<bar>)"
    using assms(1) pos by (simp add: pow2_powr)
  then have lo: "of_int e \<le> log 2 \<bar>x\<bar>"
    by (simp only: powr_le_cancel_iff one_less_numeral_iff semiring_norm)
  have "2 powr (log 2 \<bar>x\<bar>) < 2 powr of_int (e + 1)"
    using assms(2) pos by (simp add: pow2_powr)
  then have "log 2 \<bar>x\<bar> < of_int (e + 1)"
    by (simp only: powr_less_cancel_iff one_less_numeral_iff semiring_norm)
  with lo show ?thesis by (simp add: floor_eq_iff)
qed

text \<open>The exponent computed from bit lengths is the floor of the binary logarithm.\<close>

lemma float_exponent_bounds:
  assumes "x \<noteq> 0"
  shows "pow2 (float_exponent x) \<le> \<bar>x\<bar>" and "\<bar>x\<bar> < pow2 (float_exponent x + 1)"
proof -
  have "pow2 (float_exponent x) \<le> \<bar>x\<bar> \<and> \<bar>x\<bar> < pow2 (float_exponent x + 1)"
  proof (cases "1 \<le> \<bar>x\<bar>")
    case True
    let ?n = "\<lfloor>\<bar>x\<bar>\<rfloor>"
    have n: "0 < ?n" using True by simp
    have b: "1 \<le> bitlen ?n" using n by (auto simp: bitlen_alt_def)
    from bitlen_bounds[OF n] have lo: "2 ^ nat (bitlen ?n - 1) \<le> ?n"
      and hi: "?n < 2 ^ nat (bitlen ?n)" by simp_all
    have e: "float_exponent x = bitlen ?n - 1" using True by (simp add: float_exponent_def)
    define P :: int where "P = 2 ^ nat (bitlen ?n)"
    define Q :: int where "Q = 2 ^ nat (bitlen ?n - 1)"
    have "real_of_int Q \<le> of_int ?n" using lo unfolding Q_def by (simp only: of_int_le_iff)
    moreover have "real_of_int ?n \<le> \<bar>x\<bar>" by (rule of_int_floor_le)
    ultimately have "of_int Q \<le> \<bar>x\<bar>" by linarith
    moreover have "pow2 (bitlen ?n - 1) = of_int Q" using b by (simp add: pow2_def Q_def)
    ultimately have l: "pow2 (bitlen ?n - 1) \<le> \<bar>x\<bar>" by simp
    have "?n + 1 \<le> P" using hi by (simp add: P_def)
    then have "real_of_int (?n + 1) \<le> of_int P" by (simp only: of_int_le_iff)
    moreover have "\<bar>x\<bar> < of_int (?n + 1)" by linarith
    ultimately have "\<bar>x\<bar> < of_int P" by linarith
    moreover have "pow2 (bitlen ?n - 1 + 1) = of_int P" using b by (simp add: pow2_def P_def)
    ultimately have u: "\<bar>x\<bar> < pow2 (bitlen ?n - 1 + 1)" by simp
    show ?thesis unfolding e using l u by simp
  next
    case False
    let ?y = "1 / \<bar>x\<bar>"
    let ?m = "\<lceil>?y\<rceil> - 1"
    have xpos: "0 < \<bar>x\<bar>" using assms by simp
    have y1: "1 < ?y" using False xpos by simp
    then have m: "0 < ?m" by linarith
    have c: "1 \<le> bitlen ?m" using m by (auto simp: bitlen_alt_def)
    from bitlen_bounds[OF m] have lo: "2 ^ nat (bitlen ?m - 1) \<le> ?m"
      and hi: "?m < 2 ^ nat (bitlen ?m)" by simp_all
    have e: "float_exponent x = - bitlen ?m" using False by (simp add: float_exponent_def)
    define P :: int where "P = 2 ^ nat (bitlen ?m)"
    define Q :: int where "Q = 2 ^ nat (bitlen ?m - 1)"
    have Ppos: "0 < real_of_int P" and Qpos: "0 < real_of_int Q" by (simp_all add: P_def Q_def)
    have "?m + 1 \<le> P" using hi by (simp add: P_def)
    then have "real_of_int (?m + 1) \<le> of_int P" by (simp only: of_int_le_iff)
    moreover have "?y \<le> of_int (?m + 1)" by simp
    ultimately have "?y \<le> of_int P" by linarith
    then have "1 \<le> of_int P * \<bar>x\<bar>" using xpos by (simp add: divide_le_eq)
    then have "1 / of_int P \<le> \<bar>x\<bar>" using Ppos by (simp add: divide_le_eq mult.commute)
    moreover have "pow2 (- bitlen ?m) = 1 / of_int P"
      using c by (simp add: pow2_def P_def)
    ultimately have l: "pow2 (- bitlen ?m) \<le> \<bar>x\<bar>" by simp
    have "real_of_int Q \<le> of_int ?m" using lo unfolding Q_def by (simp only: of_int_le_iff)
    moreover have "real_of_int ?m < ?y" by linarith
    ultimately have "of_int Q < ?y" by linarith
    then have "of_int Q * \<bar>x\<bar> < 1" using xpos by (simp add: less_divide_eq)
    then have "\<bar>x\<bar> < 1 / of_int Q" using Qpos by (simp add: less_divide_eq mult.commute)
    moreover have "pow2 (- bitlen ?m + 1) = 1 / of_int Q"
    proof (cases "bitlen ?m = 1")
      case True
      then show ?thesis by (simp add: pow2_def Q_def)
    next
      case False
      with c have "\<not> 0 \<le> - bitlen ?m + 1" by simp
      moreover have "- (- bitlen ?m + 1) = bitlen ?m - 1" by simp
      ultimately show ?thesis by (simp only: pow2_def if_False Q_def of_int_power of_int_numeral)
    qed
    ultimately have u: "\<bar>x\<bar> < pow2 (- bitlen ?m + 1)" by simp
    show ?thesis unfolding e using l u by simp
  qed
  then show "pow2 (float_exponent x) \<le> \<bar>x\<bar>" and "\<bar>x\<bar> < pow2 (float_exponent x + 1)"
    by simp_all
qed

lemma float_exponent_log: "x \<noteq> 0 \<Longrightarrow> float_exponent x = \<lfloor>log 2 \<bar>x\<bar>\<rfloor>"
  using exponent_eq[OF float_exponent_bounds, of x] by simp

lemma double_round_log:
  "double_round x =
     (if x = 0 then 0
      else (let e = \<lfloor>log 2 \<bar>x\<bar>\<rfloor>
            in of_int (round_half_even (x / pow2 (e - 52))) * pow2 (e - 52)))"
  by (simp add: double_round_def float_exponent_log)

lemma double_round_eval:
  assumes "pow2 e \<le> \<bar>x\<bar>" and "\<bar>x\<bar> < pow2 (e + 1)"
  shows "double_round x = of_int (round_half_even (x / pow2 (e - 52))) * pow2 (e - 52)"
proof -
  have "x \<noteq> 0" using assms(1) pow2_pos[of e] by auto
  then show ?thesis by (simp add: double_round_log exponent_eq[OF assms])
qed

lemma double_round_error: "\<bar>double_round x - x\<bar> \<le> \<bar>x\<bar> / 2 ^ 53"
proof (cases "x = 0")
  case True
  then show ?thesis by (simp add: double_round_log)
next
  case False
  define e where "e = \<lfloor>log 2 \<bar>x\<bar>\<rfloor>"
  define u :: real where "u = pow2 (e - 52)"
  have upos: "0 < u" by (simp add: u_def pow2_pos)
  have lo: "pow2 e \<le> \<bar>x\<bar>" unfolding e_def using False by (rule exponent_lower)
  have dr: "double_round x = of_int (round_half_even (x / u)) * u"
    using False by (simp add: double_round_log e_def u_def Let_def)
  have "double_round x - x = (of_int (round_half_even (x / u)) - x / u) * u"
    using upos by (simp add: dr left_diff_distrib)
  then have "\<bar>double_round x - x\<bar> = \<bar>of_int (round_half_even (x / u)) - x / u\<bar> * u"
    using upos by (simp only: abs_mult abs_of_pos)
  also have "\<dots> \<le> (1 / 2) * u"
    using round_half_even_error[of "x / u"] upos by (intro mult_right_mono) simp_all
  also have "\<dots> = pow2 e / 2 ^ 53"
  proof -
    have "pow2 e = pow2 (e - 52) * pow2 52" using pow2_add[of "e - 52" 52] by simp
    then show ?thesis by (simp add: u_def pow2_def)
  qed
  also have "\<dots> \<le> \<bar>x\<bar> / 2 ^ 53" using lo by (simp add: divide_right_mono)
  finally show ?thesis .
qed

lemma double_round_representable:
  assumes "\<bar>m\<bar> < 2 ^ 53"
  shows "double_round (of_int m * pow2 k) = of_int m * pow2 k"
proof (cases "m = 0")
  case True
  then show ?thesis by (simp add: double_round_log)
next
  case False
  let ?x = "of_int m * pow2 k :: real"
  define e where "e = \<lfloor>log 2 \<bar>?x\<bar>\<rfloor>"
  have xne: "?x \<noteq> 0" using False pow2_pos[of k] by simp
  have "\<bar>real_of_int m\<bar> < 2 ^ 53"
    using assms by (metis of_int_abs of_int_less_numeral_power_cancel_iff)
  then have "\<bar>?x\<bar> < 2 ^ 53 * pow2 k"
    using pow2_pos[of k] by (simp add: abs_mult)
  also have "\<dots> = pow2 (k + 53)"
    using pow2_add[of k 53] by (simp add: pow2_def)
  finally have up: "\<bar>?x\<bar> < pow2 (k + 53)" .
  have "pow2 e \<le> \<bar>?x\<bar>" unfolding e_def using xne by (rule exponent_lower)
  with up have "pow2 e < pow2 (k + 53)" by linarith
  then have "(2 :: real) powr of_int e < 2 powr of_int (k + 53)" by (simp only: pow2_powr)
  then have "real_of_int e < of_int (k + 53)"
    by (simp only: powr_less_cancel_iff one_less_numeral_iff semiring_norm)
  then have n: "0 \<le> k + 52 - e" by simp
  have "pow2 k = pow2 (k + 52 - e) * pow2 (e - 52)"
    using pow2_add[of "k + 52 - e" "e - 52"] by simp
  then have "?x / pow2 (e - 52) = of_int m * pow2 (k + 52 - e)"
    using pow2_pos[of "e - 52"] by simp
  also have "\<dots> = of_int (m * 2 ^ nat (k + 52 - e))"
    using n by (simp add: pow2_nat)
  finally have q: "?x / pow2 (e - 52) = of_int (m * 2 ^ nat (k + 52 - e))" .
  have "double_round ?x = of_int (m * 2 ^ nat (k + 52 - e)) * pow2 (e - 52)"
    using xne unfolding double_round_log Let_def e_def[symmetric] q round_half_even_int by simp
  also have "\<dots> = ?x / pow2 (e - 52) * pow2 (e - 52)"
    by (simp only: q)
  also have "\<dots> = ?x" using pow2_pos[of "e - 52"] by simp
  finally show ?thesis .
qed

lemma double_round_int: "\<bar>m\<bar> < 2 ^ 53 \<Longrightarrow> double_round (of_int m) = of_int m"
  using double_round_representable[of m 0] by (simp add: pow2_def)

lemma double_round_dyadic:
  "\<bar>m\<bar> < 2 ^ 53 \<Longrightarrow> double_round (of_int m / 2 ^ n) = of_int m / 2 ^ n"
proof -
  assume a: "\<bar>m\<bar> < 2 ^ 53"
  have "nat (int n) = n" by simp
  then have "pow2 (- int n) = 1 / 2 ^ n" by (cases "n = 0") (simp_all add: pow2_def)
  then show ?thesis using double_round_representable[OF a, of "- int n"] by simp
qed


lemma round_half_even_mono:
  assumes "x \<le> y"
  shows "round_half_even x \<le> round_half_even y"
proof (cases "\<lfloor>x\<rfloor> = \<lfloor>y\<rfloor>")
  case True
  with assms show ?thesis by (auto simp: round_half_even_def Let_def)
next
  case False
  with assms have "\<lfloor>x\<rfloor> + 1 \<le> \<lfloor>y\<rfloor>" using floor_mono[OF assms] by linarith
  moreover have "round_half_even x \<le> \<lfloor>x\<rfloor> + 1" by (simp add: round_half_even_def Let_def)
  moreover have "\<lfloor>y\<rfloor> \<le> round_half_even y" by (simp add: round_half_even_def Let_def)
  ultimately show ?thesis by linarith
qed

lemma round_half_even_minus: "round_half_even (- x) = - round_half_even x"
proof (cases "x = of_int \<lfloor>x\<rfloor>")
  case True
  then obtain n where "x = of_int n" ..
  then have "- x = of_int (- n)" by simp
  then show ?thesis using \<open>x = of_int n\<close> by (simp only: round_half_even_int)
next
  case False
  then have lt: "of_int \<lfloor>x\<rfloor> < x" using of_int_floor_le[of x] by linarith
  have "\<lfloor>- x\<rfloor> = - \<lfloor>x\<rfloor> - 1"
    using lt by (simp add: floor_eq_iff) linarith
  then show ?thesis
    using lt by (auto simp: round_half_even_def Let_def)
qed

lemma exponent_upper:
  assumes "x \<noteq> 0"
  shows "\<bar>x\<bar> < pow2 (\<lfloor>log 2 \<bar>x\<bar>\<rfloor> + 1)"
proof -
  have "log 2 \<bar>x\<bar> < of_int (\<lfloor>log 2 \<bar>x\<bar>\<rfloor> + 1)" by linarith
  then have "2 powr (log 2 \<bar>x\<bar>) < 2 powr of_int (\<lfloor>log 2 \<bar>x\<bar>\<rfloor> + 1)"
    by (simp only: powr_less_cancel_iff one_less_numeral_iff semiring_norm)
  moreover have "2 powr (log 2 \<bar>x\<bar>) = \<bar>x\<bar>" using assms by (intro powr_log_cancel) simp_all
  ultimately show ?thesis by (simp only: pow2_powr)
qed

lemma pow2_mono: "j \<le> k \<Longrightarrow> pow2 j \<le> pow2 k"
  by (simp add: pow2_powr)

lemma double_round_minus: "double_round (- x) = - double_round x"
  by (simp add: double_round_log Let_def round_half_even_minus)

lemma double_round_range:
  assumes "pow2 e \<le> x" and "x < pow2 (e + 1)"
  shows "pow2 e \<le> double_round x" and "double_round x \<le> pow2 (e + 1)"
proof -
  let ?u = "pow2 (e - 52)"
  have u: "0 < ?u" by (rule pow2_pos)
  have xpos: "0 < x" using assms(1) pow2_pos[of e] by linarith
  have dr: "double_round x = of_int (round_half_even (x / ?u)) * ?u"
    using assms xpos by (intro double_round_eval) simp_all
  have p: "pow2 52 = 2 ^ 52" "pow2 53 = 2 ^ 53" by (simp_all add: pow2_def)
  have lo: "pow2 e = of_int (2 ^ 52) * ?u" using pow2_add[of 52 "e - 52"] by (simp add: p)
  have "e + 1 = 53 + (e - 52)" by simp
  then have "pow2 (e + 1) = pow2 (53 + (e - 52))" by (rule arg_cong)
  also have "\<dots> = pow2 53 * ?u" by (rule pow2_add)
  finally have hi: "pow2 (e + 1) = of_int (2 ^ 53) * ?u" by (simp add: p)
  have "of_int (2 ^ 52) \<le> x / ?u" using assms(1) u unfolding lo by (simp add: le_divide_eq)
  from round_half_even_mono[OF this] have a: "2 ^ 52 \<le> round_half_even (x / ?u)"
    by (simp only: round_half_even_int)
  have "x / ?u \<le> of_int (2 ^ 53)" using assms(2) u unfolding hi by (simp add: divide_le_eq)
  from round_half_even_mono[OF this] have b: "round_half_even (x / ?u) \<le> 2 ^ 53"
    by (simp only: round_half_even_int)
  have "of_int (2 ^ 52) * ?u \<le> of_int (round_half_even (x / ?u)) * ?u"
    using a u by (intro mult_right_mono) simp_all
  then show "pow2 e \<le> double_round x" by (simp only: lo dr)
  have "of_int (round_half_even (x / ?u)) * ?u \<le> of_int (2 ^ 53) * ?u"
    using b u by (intro mult_right_mono) simp_all
  then show "double_round x \<le> pow2 (e + 1)" by (simp only: hi dr)
qed

lemma double_round_mono_pos:
  assumes "0 < x" and "x \<le> y"
  shows "double_round x \<le> double_round y"
proof -
  define ex where "ex = \<lfloor>log 2 \<bar>x\<bar>\<rfloor>"
  define ey where "ey = \<lfloor>log 2 \<bar>y\<bar>\<rfloor>"
  have ne: "x \<noteq> 0" "y \<noteq> 0" using assms by simp_all
  have x: "pow2 ex \<le> x" "x < pow2 (ex + 1)"
    using exponent_lower[OF ne(1)] exponent_upper[OF ne(1)] assms(1) by (simp_all add: ex_def)
  have y: "pow2 ey \<le> y" "y < pow2 (ey + 1)"
    using exponent_lower[OF ne(2)] exponent_upper[OF ne(2)] assms by (simp_all add: ey_def)
  have "log 2 x \<le> log 2 y" using assms by simp
  then have le: "ex \<le> ey" using assms by (simp add: ex_def ey_def floor_mono)
  show ?thesis
  proof (cases "ex = ey")
    case True
    let ?u = "pow2 (ex - 52)"
    have u: "0 < ?u" by (rule pow2_pos)
    have "x / ?u \<le> y / ?u" using assms(2) u by (simp add: divide_right_mono)
    from round_half_even_mono[OF this]
    have "of_int (round_half_even (x / ?u)) * ?u \<le> of_int (round_half_even (y / ?u)) * ?u"
      using u by (intro mult_right_mono) simp_all
    then show ?thesis
      using ne by (simp add: double_round_log Let_def ex_def[symmetric] ey_def[symmetric] True)
  next
    case False
    with le have "ex + 1 \<le> ey" by simp
    then have "pow2 (ex + 1) \<le> pow2 ey" by (rule pow2_mono)
    with double_round_range(2)[OF x] double_round_range(1)[OF y] show ?thesis by linarith
  qed
qed

lemma double_round_nonneg:
  assumes "0 \<le> x"
  shows "0 \<le> double_round x"
proof (cases "x = 0")
  case True
  then show ?thesis by (simp add: double_round_log)
next
  case False
  with assms have "0 < x" by simp
  have "pow2 \<lfloor>log 2 \<bar>x\<bar>\<rfloor> \<le> x" "x < pow2 (\<lfloor>log 2 \<bar>x\<bar>\<rfloor> + 1)"
    using exponent_lower[OF False] exponent_upper[OF False] assms by simp_all
  from double_round_range(1)[OF this] pow2_pos[of "\<lfloor>log 2 \<bar>x\<bar>\<rfloor>"] show ?thesis by linarith
qed

lemma double_round_mono:
  assumes "x \<le> y"
  shows "double_round x \<le> double_round y"
proof -
  consider "0 < x" | "x \<le> 0" "0 \<le> y" | "y < 0" by linarith
  then show ?thesis
  proof cases
    case 1
    then show ?thesis using assms by (rule double_round_mono_pos)
  next
    case 2
    have "0 \<le> double_round (- x)" using 2(1) by (intro double_round_nonneg) simp
    then have "double_round x \<le> 0" by (simp add: double_round_minus)
    also have "0 \<le> double_round y" using 2(2) by (rule double_round_nonneg)
    finally show ?thesis .
  next
    case 3
    then have "0 < - y" "- y \<le> - x" using assms by simp_all
    from double_round_mono_pos[OF this] show ?thesis by (simp add: double_round_minus)
  qed
qed

lemma double_round_abs: "\<bar>double_round x\<bar> = double_round \<bar>x\<bar>"
proof (cases "0 \<le> x")
  case True
  then show ?thesis using double_round_nonneg[of x] by simp
next
  case False
  then have "0 \<le> double_round (- x)" by (intro double_round_nonneg) simp
  with False show ?thesis by (simp add: double_round_minus)
qed

subsection \<open>Truncation\<close>

lemma py_int_minus: "py_int (- x) = - py_int x"
  by (auto simp: py_int_def ceiling_def)

lemma floor_double_round_quotient:
  assumes "0 \<le> a" and "a < 2 ^ 53" and "0 < b"
  shows "\<lfloor>double_round (of_int a / of_int b)\<rfloor> = \<lfloor>real_of_int a / of_int b\<rfloor>"
proof -
  let ?q = "real_of_int a / of_int b"
  let ?n = "\<lfloor>?q\<rfloor>"
  have bpos: "0 < real_of_int b" using assms(3) by simp
  have q0: "0 \<le> ?q" using assms(1,3) by simp
  then have n0: "0 \<le> ?n" by simp
  have b1: "1 \<le> real_of_int b" and a0: "0 \<le> real_of_int a" using assms(1,3) by simp_all
  have "real_of_int a * 1 \<le> real_of_int a * real_of_int b"
    using b1 a0 by (rule mult_left_mono)
  then have "?q \<le> real_of_int a" using bpos by (simp add: divide_le_eq)
  then have "real_of_int ?n \<le> of_int a" using of_int_floor_le[of ?q] by linarith
  then have "?n \<le> a" by (simp only: of_int_le_iff)
  then have "\<bar>?n\<bar> < 2 ^ 53" using n0 assms(2) by linarith
  then have "double_round (of_int ?n) = of_int ?n" by (rule double_round_int)
  moreover have "double_round (of_int ?n) \<le> double_round ?q"
    by (rule double_round_mono) simp
  ultimately have lo: "of_int ?n \<le> double_round ?q" by simp
  have "real_of_int a < 2 ^ 53" using assms(2)
    by (metis of_int_less_numeral_power_cancel_iff)
  then have "?q / 2 ^ 53 < 1 / of_int b"
    using bpos by (simp add: field_simps)
  moreover have "double_round ?q - ?q \<le> \<bar>?q\<bar> / 2 ^ 53"
    using double_round_error[of ?q] by linarith
  ultimately have up1: "double_round ?q < ?q + 1 / of_int b" using q0 by simp
  have "a < b * (?n + 1)"
  proof -
    have lt: "?q < of_int (?n + 1)" by linarith
    have "?q * of_int b < of_int (?n + 1) * of_int b"
      using lt bpos by (rule mult_strict_right_mono)
    moreover have "?q * of_int b = of_int a" using bpos by simp
    moreover have "real_of_int (?n + 1) * of_int b = of_int (b * (?n + 1))"
      by (simp only: of_int_mult mult.commute)
    ultimately have "real_of_int a < of_int (b * (?n + 1))" by (simp only:)
    then show ?thesis by (simp only: of_int_less_iff)
  qed
  then have "a + 1 \<le> b * (?n + 1)" by simp
  then have "real_of_int (a + 1) \<le> of_int (b * (?n + 1))" by (simp only: of_int_le_iff)
  then have "real_of_int a + 1 \<le> of_int b * (of_int ?n + 1)" by simp
  then have "?q + 1 / of_int b \<le> of_int ?n + 1"
    using bpos by (simp add: field_simps)
  with up1 have up: "double_round ?q < of_int ?n + 1" by linarith
  from lo up show ?thesis by (simp add: floor_eq_iff)
qed

lemma py_int_double_round_quotient:
  assumes "0 \<le> a" and "a < 2 ^ 53" and "0 < b"
  shows "py_int (double_round (of_int a / of_int b)) = py_int (real_of_int a / of_int b)"
proof -
  have "0 \<le> real_of_int a / of_int b" using assms(1,3) by simp
  moreover from this have "0 \<le> double_round (real_of_int a / of_int b)"
    by (rule double_round_nonneg)
  ultimately show ?thesis
    using floor_double_round_quotient[OF assms] by (simp add: py_int_def)
qed

text \<open>
  Truncating the true division of two integers: for a dividend below \<open>2^53\<close> rounding the
  quotient to a float does not change the integer part.
\<close>

lemma int_truediv_trunc:
  assumes "\<bar>m\<bar> < 2 ^ 53" and "n \<noteq> 0"
  shows "py_int (int_truediv m n) = py_int (real_of_int m / of_int n)"
proof -
  consider "0 \<le> m" "0 < n" | "0 \<le> m" "n < 0" | "m < 0" "0 < n" | "m < 0" "n < 0"
    using assms(2) by linarith
  then show ?thesis
  proof cases
    case 1
    then show ?thesis
      using assms(1) by (simp add: int_truediv_def py_int_double_round_quotient)
  next
    case 2
    then have "py_int (double_round (of_int m / of_int (- n))) = py_int (real_of_int m / of_int (- n))"
      using assms(1) by (intro py_int_double_round_quotient) simp_all
    then have "py_int (double_round (- (of_int m / of_int n))) = py_int (- (real_of_int m / of_int n))"
      by simp
    then show ?thesis
      by (simp only: int_truediv_def double_round_minus py_int_minus neg_equal_iff_equal)
  next
    case 3
    then have "py_int (double_round (of_int (- m) / of_int n)) = py_int (real_of_int (- m) / of_int n)"
      using assms(1) by (intro py_int_double_round_quotient) simp_all
    then have "py_int (double_round (- (of_int m / of_int n))) = py_int (- (real_of_int m / of_int n))"
      by simp
    then show ?thesis
      by (simp only: int_truediv_def double_round_minus py_int_minus neg_equal_iff_equal)
  next
    case 4
    then have "py_int (double_round (of_int (- m) / of_int (- n)))
                 = py_int (real_of_int (- m) / of_int (- n))"
      using assms(1) by (intro py_int_double_round_quotient) simp_all
    then show ?thesis by (simp add: int_truediv_def)
  qed
qed

lemma float_of_int_exact: "\<bar>n\<bar> < 2 ^ 53 \<Longrightarrow> float_of_int n = of_int n"
  by (simp add: float_of_int_def double_round_int)

lemma double_round_abs_mono:
  assumes "a \<le> \<bar>x\<bar>"
  shows "double_round a \<le> \<bar>double_round x\<bar>"
  unfolding double_round_abs using assms by (rule double_round_mono)

text \<open>
  The float nearest to 1/90000 is \<open>819855292164869 / 2^66\<close>, a little above 1/90000; its
  product with 90000 rounds to 1.
\<close>

lemma tick_floats:
  "double_round (1 / 90000) = 819855292164869 / 2 ^ 66"
  "double_round (819855292164869 / 2 ^ 66) = 819855292164869 / 2 ^ 66"
  "double_round (819855292164869 / 2 ^ 66 * 90000) = 1"
  using double_round_eval[of "- 17" "1 / 90000"] double_round_dyadic[of 819855292164869 66]
    double_round_eval[of 0 "819855292164869 / 2 ^ 66 * 90000"]
  by (simp_all add: round_half_even_def pow2_def)

text \<open>
  A timestamp of line 72 is not zero when the target index is not zero and the stored
  frame duration is the float \<open>1.0 / fps\<close> of a frame rate of at most 90000.
\<close>

lemma ticks_nonzero:
  assumes "n \<noteq> 0" and "r \<noteq> 0" and "\<bar>r\<bar> \<le> 90000"
  shows "1 \<le> \<bar>float_mul (float_mul (float_of_int n) (float_div 1 r)) 90000\<bar>"
proof -
  let ?A = "819855292164869 / 2 ^ 66 :: real"
  have "1 \<le> \<bar>real_of_int n\<bar>" using assms(1) by linarith
  from double_round_abs_mono[OF this] have t: "1 \<le> \<bar>float_of_int n\<bar>"
    using double_round_int[of 1] by (simp add: float_of_int_def)
  have "0 < \<bar>r\<bar>" using assms(2) by simp
  then have "1 / 90000 \<le> 1 / \<bar>r\<bar>" using assms(3) by (simp add: field_simps)
  then have "1 / 90000 \<le> \<bar>1 / r\<bar>" by simp
  from double_round_abs_mono[OF this] have d: "?A \<le> \<bar>float_div 1 r\<bar>"
    by (simp only: tick_floats float_div_def)
  have "1 * ?A \<le> \<bar>float_of_int n\<bar> * \<bar>float_div 1 r\<bar>"
    using t d by (intro mult_mono) simp_all
  then have "?A \<le> \<bar>float_of_int n * float_div 1 r\<bar>" by (simp add: abs_mult)
  from double_round_abs_mono[OF this]
  have p: "?A \<le> \<bar>float_mul (float_of_int n) (float_div 1 r)\<bar>"
    by (simp only: tick_floats float_mul_def)
  have "?A * 90000 \<le> \<bar>float_mul (float_of_int n) (float_div 1 r)\<bar> * 90000"
    using p by (intro mult_right_mono) simp_all
  then have "?A * 90000 \<le> \<bar>float_mul (float_of_int n) (float_div 1 r) * 90000\<bar>"
    by (simp add: abs_mult)
  from double_round_abs_mono[OF this] show ?thesis
    by (simp only: tick_floats float_mul_def)
qed

section \<open>Properties of the frame source\<close>

subsection \<open>Truncation\<close>

lemma py_int_ge_iff_floor:
  assumes "0 < n"
  shows "n \<le> py_int x \<longleftrightarrow> n \<le> \<lfloor>x\<rfloor>"
proof (cases "0 \<le> x")
  case True
  then show ?thesis by (simp add: py_int_def)
next
  case False
  then have "x < 0" by simp
  then have "\<lceil>x\<rceil> \<le> 0" and "\<lfloor>x\<rfloor> < 0"
    by (simp_all add: ceiling_le_iff floor_less_iff)
  with assms have "\<not> n \<le> \<lceil>x\<rceil>" and "\<not> n \<le> \<lfloor>x\<rfloor>"
    by linarith+
  with False show ?thesis by (simp add: py_int_def)
qed

lemma py_int_nonzero:
  assumes "1 \<le> \<bar>x\<bar>"
  shows "py_int x \<noteq> 0"
proof (cases "0 \<le> x")
  case True
  with assms have "1 \<le> x" by simp
  then have "1 \<le> \<lfloor>x\<rfloor>" using le_floor_iff[of 1 x] by simp
  then have "\<lfloor>x\<rfloor> \<noteq> 0" by linarith
  with True show ?thesis by (simp add: py_int_def)
next
  case False
  with assms have "x \<le> - 1" by simp
  then have "\<lceil>x\<rceil> \<le> - 1" using ceiling_le_iff[of x "- 1"] by simp
  then have "\<lceil>x\<rceil> \<noteq> 0" by linarith
  with False show ?thesis by (simp add: py_int_def)
qed

subsection \<open>What each block of \<open>recv\<close> does to the object\<close>

lemma pacing_start_time:
  "start_time (snd (pacing self clk)) =
     Some (if frame_count self \<le> py_int (float_mul (current_time self clk) (fps self))
           then t_loop clk else started self clk)"
  by (simp add: pacing_def Let_def started_def split: option.splits)

lemma pacing_fields:
  "fps (snd (pacing self clk)) = fps self"
  "frame_count (snd (pacing self clk)) = frame_count self"
  "frame_duration (snd (pacing self clk)) = frame_duration self"
  "frame_index (snd (pacing self clk)) = frame_index self"
  "frames (cap (snd (pacing self clk))) = frames (cap self)"
  by (simp_all add: pacing_def Let_def cap_set_def split: option.splits)

lemma pacing_target:
  "fst (pacing self clk) =
     (if frame_count self \<le> py_int (float_mul (current_time self clk) (fps self)) then 0
      else py_int (float_mul (current_time self clk) (fps self)))"
  by (simp add: pacing_def Let_def split: option.splits)

lemma pacing_seeks:
  "seeks (cap (snd (pacing self clk))) =
     (if frame_count self \<le> py_int (float_mul (current_time self clk) (fps self))
      then 0 # seeks (cap self) else seeks (cap self))"
  by (simp add: pacing_def Let_def cap_set_def split: option.splits)

lemma pacing_target_bound:
  assumes "0 < frame_count self"
  shows "fst (pacing self clk) < frame_count self"
  using assms by (simp add: pacing_target)

lemma seek_and_read_fields:
  "fps (snd (seek_and_read self n)) = fps self"
  "frame_count (snd (seek_and_read self n)) = frame_count self"
  "frame_duration (snd (seek_and_read self n)) = frame_duration self"
  "frame_index (snd (seek_and_read self n)) = frame_index self"
  "start_time (snd (seek_and_read self n)) = start_time self"
  "frames (cap (snd (seek_and_read self n))) = frames (cap self)"
  by (simp_all add: seek_and_read_def Let_def cap_set_def cap_read_def
        split: option.splits prod.splits)

lemma seek_and_read_seeks:
  "seeks (cap (snd (seek_and_read self n))) =
     (if frames (cap self) n = None then 0 # n # seeks (cap self) else n # seeks (cap self))"
  by (simp add: seek_and_read_def Let_def cap_set_def cap_read_def
        split: option.splits prod.splits)

lemma seek_and_read_frame:
  "fst (seek_and_read self n) =
     (case frames (cap self) n of Some f \<Rightarrow> Some f | None \<Rightarrow> frames (cap self) 0)"
  by (simp add: seek_and_read_def Let_def cap_set_def cap_read_def
        split: option.splits prod.splits)

lemma recv_state:
  "snd (recv self clk) = snd (seek_and_read (snd (pacing self clk)) (fst (pacing self clk)))"
  by (simp add: recv_def Let_def split: prod.splits sum.splits)

lemma recv_result:
  "fst (recv self clk) =
     (case cvtColor_BGR2RGB (fst (seek_and_read (snd (pacing self clk)) (fst (pacing self clk)))) of
        Inl e \<Rightarrow> Inl e
      | Inr frame_rgb \<Rightarrow>
          Inr \<lparr>data = frame_rgb,
               pts = py_int (float_mul (float_mul (float_of_int (fst (pacing self clk)))
                                           (frame_duration self)) 90000),
               time_base = 1 / 90000\<rparr>)"
proof -
  obtain tf s2 where p: "pacing self clk = (tf, s2)" by (cases "pacing self clk")
  obtain fr s3 where r: "seek_and_read s2 tf = (fr, s3)" by (cases "seek_and_read s2 tf")
  have "frame_duration s3 = frame_duration self"
    using seek_and_read_fields(3)[of s2 tf] pacing_fields(3)[of self clk] by (simp add: p r)
  then show ?thesis
    by (simp add: recv_def p r split: sum.splits)
qed

lemma recv_fields:
  "fps (snd (recv self clk)) = fps self"
  "frame_count (snd (recv self clk)) = frame_count self"
  "frame_duration (snd (recv self clk)) = frame_duration self"
  "frame_index (snd (recv self clk)) = frame_index self"
  "frames (cap (snd (recv self clk))) = frames (cap self)"
  by (simp_all add: recv_state seek_and_read_fields pacing_fields)

lemma recv_start_time:
  "start_time (snd (recv self clk)) =
     Some (if frame_count self \<le> py_int (float_mul (current_time self clk) (fps self))
           then t_loop clk else started self clk)"
  by (simp add: recv_state seek_and_read_fields pacing_start_time)

lemma recv_seeks:
  "seeks (cap (snd (recv self clk))) =
     (if frames (cap self) (fst (pacing self clk)) = None
      then [0, fst (pacing self clk)] else [fst (pacing self clk)])
     @ (if frame_count self \<le> py_int (float_mul (current_time self clk) (fps self)) then [0] else [])
     @ seeks (cap self)"
  by (simp add: recv_state seek_and_read_seeks pacing_fields pacing_seeks)

lemma recv_calls_fields:
  "fps (recv_calls self clks) = fps self"
  "frame_count (recv_calls self clks) = frame_count self"
  "frame_duration (recv_calls self clks) = frame_duration self"
  "frame_index (recv_calls self clks) = frame_index self"
  by (induction clks arbitrary: self; simp add: recv_fields)+

lemma recv_calls_seeks:
  assumes "0 < frame_count self"
  shows "\<exists>new. seeks (cap (recv_calls self clks)) = new @ seeks (cap self)
              \<and> list_all (\<lambda>i. i < frame_count self) new"
  using assms
proof (induction clks arbitrary: self)
  case Nil
  then show ?case by simp
next
  case (Cons clk clks)
  let ?s = "snd (recv self clk)"
  have fc: "frame_count ?s = frame_count self" by (simp add: recv_fields)
  with Cons.prems have "0 < frame_count ?s" by simp
  from Cons.IH[OF this] obtain new where
    new: "seeks (cap (recv_calls ?s clks)) = new @ seeks (cap ?s)"
      "list_all (\<lambda>i. i < frame_count self) new"
    by (auto simp: fc)
  have tf: "fst (pacing self clk) < frame_count self"
    using Cons.prems by (rule pacing_target_bound)
  obtain one where one: "seeks (cap ?s) = one @ seeks (cap self)"
      "list_all (\<lambda>i. i < frame_count self) one"
    using tf Cons.prems by (simp add: recv_seeks)
  show ?case
    by (rule exI[of _ "new @ one"]) (simp add: new one)
qed

subsection \<open>The example tracks\<close>

text \<open>The floats that the examples go through, each rounded at its own exponent.\<close>

lemma ex_floats_exact:
  "double_round (1 / 16) = 1 / 16"
  "double_round (3 / 2) = 3 / 2"
  "double_round (9 / 64) = 9 / 64"
  "double_round (27 / 8) = 27 / 8"
  "double_round (19 / 64) = 19 / 64"
  "double_round (57 / 8) = 57 / 8"
  "double_round (1 / 64) = 1 / 64"
  "double_round 19 = 19"
  "double_round 10 = 10"
  "double_round 240 = 240"
  using double_round_dyadic[of 1 4] double_round_dyadic[of 3 1] double_round_dyadic[of 9 6]
    double_round_dyadic[of 27 3] double_round_dyadic[of 19 6] double_round_dyadic[of 57 3]
    double_round_dyadic[of 1 6]
    double_round_int[of 19] double_round_int[of 10] double_round_int[of 240]
  by simp_all

lemma ex_float_of_int:
  "float_of_int 0 = 0" "float_of_int 1 = 1" "float_of_int 3 = 3" "float_of_int 7 = 7"
  "float_of_int 19 = 19"
  using float_of_int_exact[of 0] float_of_int_exact[of 1] float_of_int_exact[of 3]
    float_of_int_exact[of 7] float_of_int_exact[of 19]
  by simp_all

lemma frame_duration_24: "float_div 1 24 = 6004799503160661 / 2 ^ 57"
  using double_round_eval[of "- 5" "1 / 24"]
  by (simp add: float_div_def round_half_even_def pow2_def)

lemma frame_duration_64: "float_div 1 64 = 1 / 64"
  by (simp add: float_div_def ex_floats_exact)

lemma pts_24_frame_1:
  "float_mul 1 (6004799503160661 / 2 ^ 57) = 6004799503160661 / 2 ^ 57"
  "float_mul (6004799503160661 / 2 ^ 57) 90000 = 3750"
  using double_round_dyadic[of 6004799503160661 57]
    double_round_eval[of 11 "6004799503160661 / 2 ^ 57 * 90000"]
  by (simp_all add: float_mul_def round_half_even_def pow2_def)

lemma pts_24_frame_3:
  "float_mul 3 (6004799503160661 / 2 ^ 57) = 1 / 8"
  "float_mul (1 / 8) 90000 = 11250"
  using double_round_eval[of "- 4" "3 * (6004799503160661 / 2 ^ 57)"]
    double_round_int[of 11250]
  by (simp_all add: float_mul_def round_half_even_def pow2_def)

lemma pts_24_frame_7:
  "float_mul 7 (6004799503160661 / 2 ^ 57) = 2627099782632789 / 2 ^ 53"
  "float_mul (2627099782632789 / 2 ^ 53) 90000 = 7215545057279999 / 2 ^ 38"
  using double_round_eval[of "- 2" "7 * (6004799503160661 / 2 ^ 57)"]
    double_round_eval[of 14 "2627099782632789 / 2 ^ 53 * 90000"]
  by (simp_all add: float_mul_def round_half_even_def pow2_def)

lemma pts_64_frame_19:
  "float_mul 19 (1 / 64) = 19 / 64"
  "float_mul (19 / 64) 90000 = 106875 / 4"
  using double_round_dyadic[of 19 6] double_round_dyadic[of 106875 2]
  by (simp_all add: float_mul_def)

lemma quotient_7_24:
  "float_div 7 24 = 5254199565265579 / 2 ^ 54"
  "float_mul (5254199565265579 / 2 ^ 54) 90000 = 26250"
  using double_round_eval[of "- 2" "7 / 24"]
    double_round_eval[of 14 "5254199565265579 / 2 ^ 54 * 90000"]
  by (simp_all add: float_div_def float_mul_def round_half_even_def pow2_def)

lemma ex_track_init: "SideBySideVideoTrack ex_capture = Inr ex_track"
  using frame_duration_24
  by (simp add: SideBySideVideoTrack_def ex_capture_def ex_track_def py_int_def)

lemma fast_track_init: "SideBySideVideoTrack fast_capture = Inr fast_track"
  using frame_duration_64
  by (simp add: SideBySideVideoTrack_def fast_capture_def fast_track_def ex_capture_def
        ex_track_def py_int_def)

lemma ex_track_fields:
  "frame_count ex_track = 100"
  "fps ex_track = 24"
  "frame_duration ex_track = 6004799503160661 / 2 ^ 57"
  "start_time ex_track = None"
  "frame_index ex_track = 0"
  "seeks (cap ex_track) = []"
  by (simp_all add: ex_track_def ex_capture_def)

lemma fast_track_fields:
  "frame_count fast_track = 100"
  "fps fast_track = 64"
  "frame_duration fast_track = 1 / 64"
  "start_time fast_track = None"
  by (simp_all add: fast_track_def ex_track_def)

lemma ex_track_frames:
  "frames (cap ex_track) 0 = Some ex_image"
  "frames (cap ex_track) 1 = Some ex_image"
  "frames (cap ex_track) 3 = None"
  "frames (cap ex_track) 7 = Some ex_image"
  "frames (cap fast_track) 19 = Some ex_image"
  "frames (cap fast_track) 0 = Some ex_image"
  by (simp_all add: ex_track_def fast_track_def fast_capture_def ex_capture_def)

lemma ex_started: "started ex_track clk = t_first clk" "started fast_track clk = t_first clk"
  by (simp_all add: started_def ex_track_fields fast_track_fields)

lemma ex_elapsed:
  "current_time ex_track ex_clock = 1 / 16"
  "current_time ex_track bad_frame_clock = 9 / 64"
  "current_time ex_track seventh_clock = 19 / 64"
  "current_time ex_track late_clock = 10"
  "current_time fast_track seventh_clock = 19 / 64"
  by (simp_all add: current_time_def ex_started float_sub_def ex_floats_exact
        ex_clock_def bad_frame_clock_def seventh_clock_def late_clock_def)

lemma ex_targets:
  "py_int (float_mul (current_time ex_track ex_clock) (fps ex_track)) = 1"
  "py_int (float_mul (current_time ex_track bad_frame_clock) (fps ex_track)) = 3"
  "py_int (float_mul (current_time ex_track seventh_clock) (fps ex_track)) = 7"
  "py_int (float_mul (current_time ex_track late_clock) (fps ex_track)) = 240"
  "py_int (float_mul (current_time fast_track seventh_clock) (fps fast_track)) = 19"
  by (simp_all add: ex_elapsed ex_track_fields fast_track_fields float_mul_def ex_floats_exact
        py_int_def)

lemma ex_loop_test:
  "\<not> frame_count ex_track
       \<le> py_int (float_mul (current_time ex_track ex_clock) (fps ex_track))"
  "\<not> frame_count ex_track
       \<le> py_int (float_mul (current_time ex_track bad_frame_clock) (fps ex_track))"
  "\<not> frame_count ex_track
       \<le> py_int (float_mul (current_time ex_track seventh_clock) (fps ex_track))"
  "frame_count ex_track
       \<le> py_int (float_mul (current_time ex_track late_clock) (fps ex_track))"
  "\<not> frame_count fast_track
       \<le> py_int (float_mul (current_time fast_track seventh_clock) (fps fast_track))"
  unfolding ex_targets by (simp_all add: ex_track_fields fast_track_fields)

lemma ex_pacing:
  "fst (pacing ex_track ex_clock) = 1"
  "fst (pacing ex_track bad_frame_clock) = 3"
  "fst (pacing ex_track seventh_clock) = 7"
  "fst (pacing ex_track late_clock) = 0"
  "fst (pacing fast_track seventh_clock) = 19"
  unfolding pacing_target ex_targets by (simp_all add: ex_track_fields fast_track_fields)

lemma ex_pts:
  "py_int (float_mul (float_mul (float_of_int 1) (frame_duration ex_track)) 90000) = 3750"
  "py_int (float_mul (float_mul (float_of_int 3) (frame_duration ex_track)) 90000) = 11250"
  "py_int (float_mul (float_mul (float_of_int 7) (frame_duration ex_track)) 90000) = 26249"
  "py_int (float_mul (float_mul (float_of_int 19) (frame_duration fast_track)) 90000) = 26718"
  unfolding ex_float_of_int ex_track_fields fast_track_fields
    pts_24_frame_1 pts_24_frame_3 pts_24_frame_7 pts_64_frame_19
  by (simp_all add: py_int_def)

subsection \<open>Claims about the frame source\<close>

text \<open>
  Claim C1. For an asset with at least one frame and any sequence of \<open>recv\<close> calls, every
  index passed to the decoder's seek during those calls, and so every index decoded, is
  strictly below the frame count; the target index of the next call is below it too. The
  loop reset (target index 0 and \<open>start_time\<close> set to the wall-clock reading of line 54)
  happens on a call exactly when the floor of elapsed time times frame rate, the product
  that line 49 computes, reaches the frame count; otherwise the target is the truncated
  product and the recorded start is kept.
\<close>

theorem recv_index_below_frame_count:
  assumes "0 < frame_count self"
  shows "(\<exists>new. seeks (cap (recv_calls self clks)) = new @ seeks (cap self)
                \<and> list_all (\<lambda>i. i < frame_count self) new)
       \<and> fst (pacing (recv_calls self clks) clk) < frame_count self
       \<and> fst (pacing (recv_calls self clks) clk) =
           (if frame_count self
                 \<le> \<lfloor>float_mul (current_time (recv_calls self clks) clk) (fps self)\<rfloor>
            then 0
            else py_int (float_mul (current_time (recv_calls self clks) clk) (fps self)))
       \<and> start_time (snd (recv (recv_calls self clks) clk)) =
           Some (if frame_count self
                      \<le> \<lfloor>float_mul (current_time (recv_calls self clks) clk) (fps self)\<rfloor>
                 then t_loop clk else started (recv_calls self clks) clk)"
proof -
  let ?s = "recv_calls self clks"
  have fc: "frame_count ?s = frame_count self" and fp: "fps ?s = fps self"
    by (simp_all add: recv_calls_fields)
  have iff: "frame_count self \<le> py_int x \<longleftrightarrow> frame_count self \<le> \<lfloor>x\<rfloor>" for x
    using assms by (rule py_int_ge_iff_floor)
  have "fst (pacing ?s clk) < frame_count self"
    using pacing_target_bound[of ?s clk] assms by (simp add: fc)
  moreover have "fst (pacing ?s clk) =
           (if frame_count self \<le> \<lfloor>float_mul (current_time ?s clk) (fps self)\<rfloor>
            then 0 else py_int (float_mul (current_time ?s clk) (fps self)))"
    by (simp add: pacing_target fc fp iff)
  moreover have "start_time (snd (recv ?s clk)) =
           Some (if frame_count self \<le> \<lfloor>float_mul (current_time ?s clk) (fps self)\<rfloor>
                 then t_loop clk else started ?s clk)"
    by (simp add: recv_start_time fc fp iff)
  ultimately show ?thesis
    using recv_calls_seeks[OF assms, of clks] by blast
qed

text \<open>
  The example track, after one call 1/16 s after the start, is called again 10 s after the
  start: the 100 frames are over, the call loops.
\<close>

theorem recv_index_below_frame_count_witness:
  "0 < frame_count ex_track
   \<and> fst (pacing (recv_calls ex_track [ex_clock]) late_clock) = 0
   \<and> start_time (snd (recv (recv_calls ex_track [ex_clock]) late_clock))
       = Some (1010 + 1 / 1024)"
proof -
  let ?s = "snd (recv ex_track ex_clock)"
  have s: "recv_calls ex_track [ex_clock] = ?s" by simp
  have h: "0 < frame_count ex_track" by (simp add: ex_track_fields)
  have "start_time ?s = Some (t_first ex_clock)"
    by (simp add: recv_start_time ex_loop_test ex_started)
  then have st: "start_time ?s = Some 1000"
    by (simp add: ex_clock_def)
  have ct: "float_mul (current_time ?s late_clock) (fps ex_track) = 240"
    by (simp add: current_time_def started_def st late_clock_def ex_track_fields
          float_sub_def float_mul_def ex_floats_exact)
  have fl: "frame_count ex_track \<le> \<lfloor>float_mul (current_time ?s late_clock) (fps ex_track)\<rfloor>"
    unfolding ct by (simp add: ex_track_fields)
  from recv_index_below_frame_count[OF h, of "[ex_clock]" late_clock] fl h
  show ?thesis unfolding s by (simp add: late_clock_def)
qed

text \<open>
  Claim C2, as stated: the presentation timestamp is \<open>round(target_index / native_fps * 90000)\<close>.
  It fails on the code, which truncates a product of floats. At 64 frames per second, where
  every operation is exact, frame 19 is at 26718.75 ticks: the code emits 26718, rounding
  gives 26719. At 24 frames per second frame 7 is at 26250 ticks, and so it is when the
  quotient and the product are taken in floats; the code multiplies 7 by the float nearest
  to 1/24, which is below 1/24, gets 26249.999999999996 and emits 26249.
\<close>

theorem recv_pts_round_counterexample:
  "fst (pacing fast_track seventh_clock) = 19
   \<and> map_sum id pts (fst (recv fast_track seventh_clock)) = Inr 26718
   \<and> round (real_of_int 19 / fps fast_track * 90000) = 26719
   \<and> fst (pacing ex_track seventh_clock) = 7
   \<and> map_sum id pts (fst (recv ex_track seventh_clock)) = Inr 26249
   \<and> round (real_of_int 7 / fps ex_track * 90000) = 26250
   \<and> round (float_mul (float_div (float_of_int 7) (fps ex_track)) 90000) = 26250"
proof -
  have a: "map_sum id pts (fst (recv fast_track seventh_clock)) = Inr 26718"
    by (simp add: recv_result ex_pacing seek_and_read_frame pacing_fields ex_track_frames
          cvtColor_BGR2RGB_def ex_pts)
  have b: "map_sum id pts (fst (recv ex_track seventh_clock)) = Inr 26249"
    by (simp add: recv_result ex_pacing seek_and_read_frame pacing_fields ex_track_frames
          cvtColor_BGR2RGB_def ex_pts)
  have c: "round (real_of_int 19 / fps fast_track * 90000) = 26719"
    "round (real_of_int 7 / fps ex_track * 90000) = 26250"
    by (simp_all add: ex_track_fields fast_track_fields round_def)
  have d: "round (float_mul (float_div (float_of_int 7) (fps ex_track)) 90000) = 26250"
    unfolding ex_float_of_int ex_track_fields quotient_7_24 by simp
  show ?thesis
    by (intro conjI ex_pacing a b c d)
qed

text \<open>
  Claim C2, amended: on a track built by the constructor, every frame that \<open>recv\<close> emits has
  the time base 1/90000 and the timestamp \<open>int(target_index * frame_duration * 90000)\<close>:
  \<open>target_index\<close> is the index the pacing selected for that call, \<open>frame_duration\<close> is the
  float \<open>1.0 / native_fps\<close>, the two multiplications are made on floats from left to right,
  each rounded to the nearest float, and the result is truncated toward zero.
\<close>

theorem recv_pts_truncated:
  assumes "SideBySideVideoTrack c = Inr self0"
    and "fst (recv (recv_calls self0 clks) clk) = Inr fr"
  shows "pts fr = py_int (float_mul
                    (float_mul (float_of_int (fst (pacing (recv_calls self0 clks) clk)))
                               (float_div 1 (fps self0)))
                    90000)
       \<and> time_base fr = 1 / 90000"
proof -
  let ?s = "recv_calls self0 clks"
  from assms(1) have "frame_duration self0 = float_div 1 (fps self0)"
    by (auto simp: SideBySideVideoTrack_def split: if_splits)
  then have fd: "frame_duration ?s = float_div 1 (fps self0)"
    by (simp add: recv_calls_fields)
  from assms(2) show ?thesis
    by (auto simp: recv_result fd split: sum.splits)
qed

text \<open>
  On the example track, the call that selects frame 7 emits the timestamp 26249, one
  tick below the 26250 of the exact quotient.
\<close>

theorem recv_pts_truncated_witness:
  "SideBySideVideoTrack ex_capture = Inr ex_track
   \<and> fst (recv (recv_calls ex_track []) seventh_clock)
       = Inr \<lparr>data = [[(3, 2, 1), (6, 5, 4)]], pts = 26249, time_base = 1 / 90000\<rparr>
   \<and> fst (pacing (recv_calls ex_track []) seventh_clock) = 7
   \<and> py_int (float_mul (float_mul (float_of_int 7) (float_div 1 (fps ex_track))) 90000) = 26249
   \<and> py_int (real_of_int 7 / fps ex_track * 90000) = 26250"
proof -
  let ?fr = "\<lparr>data = [[(3, 2, 1), (6, 5, 4)]], pts = 26249, time_base = 1 / 90000\<rparr>"
  have r: "fst (recv (recv_calls ex_track []) seventh_clock) = Inr ?fr"
    by (simp add: recv_result ex_pacing seek_and_read_frame pacing_fields ex_track_frames
          cvtColor_BGR2RGB_def ex_pts ex_image_def bgr2rgb_def)
  have p: "fst (pacing (recv_calls ex_track []) seventh_clock) = 7"
    by (simp add: ex_pacing)
  have e: "py_int (real_of_int 7 / fps ex_track * 90000) = 26250"
    by (simp add: ex_track_fields py_int_def)
  from recv_pts_truncated[OF ex_track_init r] have
    "pts ?fr = py_int (float_mul (float_mul (float_of_int 7) (float_div 1 (fps ex_track))) 90000)"
    unfolding p by (rule conjunct1)
  then have v: "py_int (float_mul (float_mul (float_of_int 7) (float_div 1 (fps ex_track))) 90000)
                  = 26249"
    by simp
  show ?thesis
    by (intro conjI ex_track_init r p v e)
qed

text \<open>
  Claim C7, as stated: the pacing state \<open>(start_time, frame_index)\<close> is reset to
  \<open>(None, 0)\<close> when playback loops and when decoding fails at the target index. It fails on
  the code. On the example track a call 10 s after the start loops and leaves
  \<open>start_time\<close> at the clock reading of line 54; a call whose target, frame 3, cannot be
  decoded leaves \<open>start_time\<close> at the recorded start.
\<close>

theorem recv_reset_to_none_counterexample:
  "frame_count ex_track \<le> py_int (float_mul (current_time ex_track late_clock) (fps ex_track))
   \<and> start_time (snd (recv ex_track late_clock)) = Some (1010 + 1 / 1024)
   \<and> frames (cap ex_track) (fst (pacing ex_track bad_frame_clock)) = None
   \<and> start_time (snd (recv ex_track bad_frame_clock)) = Some 1000"
proof -
  have "start_time (snd (recv ex_track late_clock)) = Some (t_loop late_clock)"
    by (simp add: recv_start_time ex_loop_test)
  then have a: "start_time (snd (recv ex_track late_clock)) = Some (1010 + 1 / 1024)"
    by (simp add: late_clock_def)
  have "start_time (snd (recv ex_track bad_frame_clock)) = Some (t_first bad_frame_clock)"
    by (simp add: recv_start_time ex_loop_test ex_started)
  then have b: "start_time (snd (recv ex_track bad_frame_clock)) = Some 1000"
    by (simp add: bad_frame_clock_def)
  show ?thesis
    by (simp add: a b ex_loop_test ex_pacing ex_track_frames)
qed

text \<open>
  Claim C7, amended to the part of it that the code settles by design, the loop at the end
  of the asset. The field \<open>frame_index\<close> is never written by \<open>recv\<close>. On a call on which
  decoding at the target index succeeds: when playback loops (the truncated product of
  elapsed time and frame rate has reached the frame count) the pacing restarts from a
  timestamp, not from \<open>None\<close>: \<open>start_time\<close> is the wall-clock reading of line 54, the
  target index is 0, and the decoder is sought to 0 and then to the target; when playback
  does not loop, \<open>start_time\<close> is the recorded start and the decoder is sought to the
  target only. What a call does to the pacing state when decoding at the target index
  fails is not part of the amended claim.
\<close>

theorem recv_pacing_state:
  "frame_index (snd (recv self clk)) = frame_index self
   \<and> (frames (cap self) (fst (pacing self clk)) \<noteq> None \<longrightarrow>
        start_time (snd (recv self clk)) =
          Some (if frame_count self \<le> py_int (float_mul (current_time self clk) (fps self))
                then t_loop clk else started self clk)
        \<and> fst (pacing self clk) =
            (if frame_count self \<le> py_int (float_mul (current_time self clk) (fps self))
             then 0 else py_int (float_mul (current_time self clk) (fps self)))
        \<and> seeks (cap (snd (recv self clk))) =
            fst (pacing self clk)
            # (if frame_count self \<le> py_int (float_mul (current_time self clk) (fps self))
               then [0] else [])
            @ seeks (cap self))"
proof (intro conjI impI)
  show "frame_index (snd (recv self clk)) = frame_index self"
    by (simp add: recv_fields)
next
  show "start_time (snd (recv self clk)) =
          Some (if frame_count self \<le> py_int (float_mul (current_time self clk) (fps self))
                then t_loop clk else started self clk)"
    by (rule recv_start_time)
next
  show "fst (pacing self clk) =
            (if frame_count self \<le> py_int (float_mul (current_time self clk) (fps self))
             then 0 else py_int (float_mul (current_time self clk) (fps self)))"
    by (rule pacing_target)
next
  assume "frames (cap self) (fst (pacing self clk)) \<noteq> None"
  then show "seeks (cap (snd (recv self clk))) =
            fst (pacing self clk)
            # (if frame_count self \<le> py_int (float_mul (current_time self clk) (fps self))
               then [0] else [])
            @ seeks (cap self)"
    by (simp add: recv_seeks)
qed

text \<open>
  The example track called 10 s after the start: the call loops, frame 0 is decoded, and
  \<open>start_time\<close> is the reading of line 54.
\<close>

theorem recv_pacing_state_witness:
  "frames (cap ex_track) (fst (pacing ex_track late_clock)) \<noteq> None
   \<and> frame_count ex_track \<le> py_int (float_mul (current_time ex_track late_clock) (fps ex_track))
   \<and> start_time (snd (recv ex_track late_clock)) = Some (1010 + 1 / 1024)
   \<and> fst (pacing ex_track late_clock) = 0
   \<and> frame_index (snd (recv ex_track late_clock)) = 0
   \<and> seeks (cap (snd (recv ex_track late_clock))) = [0, 0]"
proof -
  have h: "frames (cap ex_track) (fst (pacing ex_track late_clock)) \<noteq> None"
    by (simp add: ex_pacing ex_track_frames)
  note w = recv_pacing_state[of ex_track late_clock]
  note w1 = conjunct1[OF w]
  note w2 = mp[OF conjunct2[OF w] h]
  have "start_time (snd (recv ex_track late_clock)) = Some (t_loop late_clock)"
    using w2 by (simp add: ex_loop_test)
  then have a: "start_time (snd (recv ex_track late_clock)) = Some (1010 + 1 / 1024)"
    by (simp add: late_clock_def)
  have b: "seeks (cap (snd (recv ex_track late_clock))) = [0, 0]"
    using w2 by (simp add: ex_loop_test ex_track_fields(6))
  have c: "frame_index (snd (recv ex_track late_clock)) = 0"
    using w1 by (simp add: ex_track_fields)
  have d: "fst (pacing ex_track late_clock) = 0"
    using w2 by (simp add: ex_loop_test)
  show ?thesis
    by (intro conjI h ex_loop_test(4) a b c d)
qed

text \<open>
  Claim C9, as stated: a zero frame rate makes construction fail with \<open>InvalidAssetError\<close>,
  and construction never performs an unguarded division that could fault. It fails on the
  code: line 36 divides by the frame rate with no guard, and the constructor of an asset
  that opens and reports 0 frames per second raises \<open>ZeroDivisionError\<close>.
\<close>

theorem init_zero_fps_counterexample:
  "SideBySideVideoTrack zero_fps_capture = Inl (ZeroDivisionError ''float division by zero'')"
  by (simp add: SideBySideVideoTrack_def zero_fps_capture_def ex_capture_def)

text \<open>
  Claim C9, amended: if the asset opens and its native frame rate is zero, construction
  fails with the \<open>ZeroDivisionError\<close> of the unguarded division \<open>1.0 / fps\<close>, so no track
  object exists; and \<open>recv\<close>, which multiplies by the stored \<open>frame_duration\<close> and never
  divides, raises no division fault on any track and any clock.
\<close>

theorem init_zero_fps_division_fault:
  assumes "isOpened c" and "prop_fps c = 0"
  shows "SideBySideVideoTrack c = Inl (ZeroDivisionError ''float division by zero'')
       \<and> (\<forall>self clk m. fst (recv self clk) \<noteq> Inl (ZeroDivisionError m))"
proof -
  have "fst (recv self clk) \<noteq> Inl (ZeroDivisionError m)" for self clk m
    by (simp add: recv_result cvtColor_BGR2RGB_def split: option.splits)
  with assms show ?thesis
    by (simp add: SideBySideVideoTrack_def)
qed

theorem init_zero_fps_division_fault_witness:
  "isOpened zero_fps_capture \<and> prop_fps zero_fps_capture = 0
   \<and> SideBySideVideoTrack zero_fps_capture = Inl (ZeroDivisionError ''float division by zero'')
   \<and> fst (recv ex_track ex_clock) \<noteq> Inl (ZeroDivisionError ''float division by zero'')"
proof -
  have h1: "isOpened zero_fps_capture" and h2: "prop_fps zero_fps_capture = 0"
    by (simp_all add: zero_fps_capture_def ex_capture_def)
  from init_zero_fps_division_fault[OF h1 h2] h1 h2 show ?thesis by blast
qed

text \<open>
  Claim C10. When decoding at the paced target index fails and decoding at index 0
  succeeds, \<open>recv\<close> emits frame 0 (the last position sought is 0) with the timestamp
  computed from the failed target index, and \<open>start_time\<close> is what the pacing left, with
  no restart. On a track whose \<open>frame_duration\<close> is the float \<open>1.0 / fps\<close> with a frame rate
  of at most 90000, that timestamp is not 0, the timestamp of the frame emitted.
\<close>

theorem recv_fallback_keeps_target_pts:
  assumes "frames (cap self) (fst (pacing self clk)) = None"
    and "frames (cap self) 0 = Some f0"
  shows "fst (recv self clk) =
           Inr \<lparr>data = map (map bgr2rgb) f0,
                pts = py_int (float_mul (float_mul (float_of_int (fst (pacing self clk)))
                                            (frame_duration self)) 90000),
                time_base = 1 / 90000\<rparr>
       \<and> start_time (snd (recv self clk)) = start_time (snd (pacing self clk))
       \<and> hd (seeks (cap (snd (recv self clk)))) = 0
       \<and> (fps self \<noteq> 0 \<and> \<bar>fps self\<bar> \<le> 90000
            \<and> frame_duration self = float_div 1 (fps self) \<longrightarrow>
            py_int (float_mul (float_mul (float_of_int (fst (pacing self clk)))
                                 (frame_duration self)) 90000) \<noteq> 0)"
proof -
  let ?tf = "fst (pacing self clk)"
  have res: "fst (recv self clk) =
           Inr \<lparr>data = map (map bgr2rgb) f0,
                pts = py_int (float_mul (float_mul (float_of_int ?tf) (frame_duration self))
                                90000),
                time_base = 1 / 90000\<rparr>"
    using assms by (simp add: recv_result seek_and_read_frame pacing_fields cvtColor_BGR2RGB_def)
  have st: "start_time (snd (recv self clk)) = start_time (snd (pacing self clk))"
    by (simp add: recv_state seek_and_read_fields)
  have sk: "hd (seeks (cap (snd (recv self clk)))) = 0"
    using assms(1) by (simp add: recv_seeks)
  have nz: "py_int (float_mul (float_mul (float_of_int ?tf) (frame_duration self)) 90000) \<noteq> 0"
    if f: "fps self \<noteq> 0" "\<bar>fps self\<bar> \<le> 90000" "frame_duration self = float_div 1 (fps self)"
  proof -
    from assms have "?tf \<noteq> 0" by auto
    from ticks_nonzero[OF this f(1,2)] show ?thesis
      unfolding f(3) by (rule py_int_nonzero)
  qed
  from res st sk nz show ?thesis by blast
qed

theorem recv_fallback_keeps_target_pts_witness:
  "frames (cap ex_track) (fst (pacing ex_track bad_frame_clock)) = None
   \<and> frames (cap ex_track) 0 = Some ex_image
   \<and> fst (recv ex_track bad_frame_clock) =
       Inr \<lparr>data = [[(3, 2, 1), (6, 5, 4)]], pts = 11250, time_base = 1 / 90000\<rparr>
   \<and> start_time (snd (recv ex_track bad_frame_clock)) = Some 1000"
proof -
  have h1: "frames (cap ex_track) (fst (pacing ex_track bad_frame_clock)) = None"
    by (simp add: ex_pacing ex_track_frames)
  have h2: "frames (cap ex_track) 0 = Some ex_image"
    by (simp add: ex_track_frames)
  note w = recv_fallback_keeps_target_pts[OF h1 h2]
  have "start_time (snd (pacing ex_track bad_frame_clock)) = Some (t_first bad_frame_clock)"
    by (simp add: pacing_start_time ex_loop_test ex_started)
  then have st: "start_time (snd (pacing ex_track bad_frame_clock)) = Some 1000"
    by (simp add: bad_frame_clock_def)
  have r: "fst (recv ex_track bad_frame_clock) =
       Inr \<lparr>data = [[(3, 2, 1), (6, 5, 4)]], pts = 11250, time_base = 1 / 90000\<rparr>"
    using w by (simp add: ex_pacing ex_pts ex_image_def bgr2rgb_def)
  from w st r h1 h2 show ?thesis by simp
qed

section \<open>Properties of the stereo transform\<close>

subsection \<open>Slices and assignments\<close>

lemma norm_index_le: "norm_index n i \<le> n"
  by (auto simp: norm_index_def max_def)

lemma slice_bounds_le:
  assumes "slice_bounds n s e = (lo, len)"
  shows "lo + len \<le> n"
proof -
  define hi where "hi = (case e of None \<Rightarrow> n | Some j \<Rightarrow> norm_index n j)"
  have "lo \<le> n" using assms
    by (auto simp: slice_bounds_def Let_def norm_index_le split: option.splits)
  moreover have "hi \<le> n"
    by (simp add: hi_def norm_index_le split: option.splits)
  moreover have "len = hi - lo" using assms
    by (auto simp: slice_bounds_def Let_def hi_def)
  ultimately show ?thesis by arith
qed

lemma img_width_rows:
  assumes "list_all (\<lambda>r. length r = n) v" and "v \<noteq> []"
  shows "img_width v = n"
  using assms by (cases v) (simp_all add: img_width_def)

lemma stretch_same: "length xs = n \<Longrightarrow> stretch n xs = xs"
  by (simp add: stretch_def)

lemma stretch_rows:
  assumes "length v = nr" and "list_all (\<lambda>r. length r = nc) v"
  shows "stretch nr (map (stretch nc) v) = v"
proof -
  have "map (stretch nc) v = v"
    using assms(2) by (induction v) (simp_all add: stretch_same)
  then show ?thesis using assms(1) by (simp add: stretch_same)
qed

lemma assign_region_exact:
  assumes "slice_bounds (img_height a) rs re = (r0, nr)"
    and "slice_bounds (img_width a) cs ce = (c0, nc)"
    and "length v = nr" and "list_all (\<lambda>r. length r = nc) v" and "v \<noteq> []"
  shows "assign_region a rs re cs ce v =
           Inr (take r0 a
                @ map2 (\<lambda>row vals. take c0 row @ vals @ drop (c0 + nc) row) (take nr (drop r0 a)) v
                @ drop (r0 + nr) a)"
proof -
  have w: "img_width v = nc" using assms(4,5) by (rule img_width_rows)
  show ?thesis
    by (simp add: assign_region_def assms(1)[unfolded img_height_def] assms(2) w
          img_height_def assms(3) stretch_rows[OF assms(3,4)])
qed

lemma zeros_like_rect:
  assumes "rectangular frame"
  shows "zeros_like frame = replicate (length frame) (replicate (img_width frame) (0, 0, 0))"
proof -
  have "map (map (\<lambda>_. (0, 0, 0) :: pixel)) frame = map (\<lambda>_. replicate (img_width frame) (0, 0, 0)) frame"
    using assms by (intro map_cong) (auto simp: rectangular_def list_all_iff map_replicate_const)
  then show ?thesis by (simp add: zeros_like_def map_replicate_const)
qed

lemma map2_cong_set:
  assumes "\<And>x y. (x, y) \<in> set (zip xs ys) \<Longrightarrow> f x y = g x y"
  shows "map2 f xs ys = map2 g xs ys"
  using assms by (intro map_cong) auto

lemma slice_bounds_upto: "slice_bounds w None (Some (int half)) = (0, min half w)"
  by (simp add: slice_bounds_def norm_index_def)

lemma slice_bounds_from: "slice_bounds w (Some (int half)) None = (min half w, w - half)"
  by (auto simp: slice_bounds_def norm_index_def min_def)

lemma img_width_replicate: "0 < h \<Longrightarrow> img_width (replicate h row) = length row"
  by (cases h) (simp_all add: img_width_def)

lemma first_half_assign:
  assumes sb: "slice_bounds h rs re = (r0, nr)"
    and L: "length L = nr" "list_all (\<lambda>r. length r = half) L" "L \<noteq> []"
    and hw: "half \<le> w" "0 < h"
  shows "assign_region (replicate h (replicate w z)) rs re None (Some (int half)) L =
           Inr (replicate r0 (replicate w z) @ map (\<lambda>l. l @ replicate (w - half) z) L
                @ replicate (h - (r0 + nr)) (replicate w z))"
proof -
  let ?Z = "replicate h (replicate w z)"
  have le: "r0 + nr \<le> h" using sb by (rule slice_bounds_le)
  have hZ: "img_height ?Z = h" by (simp add: img_height_def)
  have wZ: "img_width ?Z = w" using hw(2) by (simp add: img_width_replicate)
  have cb: "slice_bounds (img_width ?Z) None (Some (int half)) = (0, half)"
    using hw(1) by (simp add: wZ slice_bounds_upto)
  have mid: "map2 (\<lambda>row vals. take 0 row @ vals @ drop (0 + half) row)
               (take nr (drop r0 ?Z)) L = map (\<lambda>l. l @ replicate (w - half) z) L"
  proof -
    have "take nr (drop r0 ?Z) = replicate nr (replicate w z)"
      using le by simp
    then show ?thesis
      using L(1) by (simp add: zip_replicate1 comp_def)
  qed
  have "assign_region ?Z rs re None (Some (int half)) L =
          Inr (take r0 ?Z
               @ map2 (\<lambda>row vals. take 0 row @ vals @ drop (0 + half) row) (take nr (drop r0 ?Z)) L
               @ drop (r0 + nr) ?Z)"
    using sb cb L by (intro assign_region_exact) (simp_all add: hZ)
  also have "\<dots> = Inr (replicate r0 (replicate w z) @ map (\<lambda>l. l @ replicate (w - half) z) L
                @ replicate (h - (r0 + nr)) (replicate w z))"
    unfolding mid using le by simp
  finally show ?thesis .
qed

lemma second_half_assign:
  assumes sb: "slice_bounds h rs re = (r0, nr)"
    and L: "length L = nr" "list_all (\<lambda>r. length r = half) L" "L \<noteq> []"
    and R: "length R = nr" "list_all (\<lambda>r. length r = w - half) R"
    and hw: "half \<le> w" "0 < h"
  shows "assign_region (replicate r0 (replicate w z) @ map (\<lambda>l. l @ replicate (w - half) z) L
                        @ replicate (h - (r0 + nr)) (replicate w z))
           rs re (Some (int half)) None R =
           Inr (replicate r0 (replicate w z) @ map2 (@) L R
                @ replicate (h - (r0 + nr)) (replicate w z))"
proof -
  let ?S = "replicate r0 (replicate w z) @ map (\<lambda>l. l @ replicate (w - half) z) L
              @ replicate (h - (r0 + nr)) (replicate w z)"
  have le: "r0 + nr \<le> h" using sb by (rule slice_bounds_le)
  have hS: "img_height ?S = h" using le L(1) by (simp add: img_height_def)
  have wS: "img_width ?S = w"
  proof (cases r0)
    case 0
    obtain l ls where l: "L = l # ls" using L(3) by (cases L) auto
    with L(2) have "length l = half" by simp
    then show ?thesis using 0 l hw(1) by (simp add: img_width_def)
  next
    case (Suc n)
    then show ?thesis by (simp add: img_width_def)
  qed
  have cb: "slice_bounds (img_width ?S) (Some (int half)) None = (half, w - half)"
    using hw(1) by (simp add: wS slice_bounds_from)
  have Rne: "R \<noteq> []" using R(1) L(1,3) by auto
  have tk: "take r0 ?S = replicate r0 (replicate w z)" by simp
  have dr: "drop (r0 + nr) ?S = replicate (h - (r0 + nr)) (replicate w z)"
    using L(1) by simp
  have md: "take nr (drop r0 ?S) = map (\<lambda>l. l @ replicate (w - half) z) L"
    using L(1) by simp
  have mid: "map2 (\<lambda>row vals. take half row @ vals @ drop (half + (w - half)) row)
               (map (\<lambda>l. l @ replicate (w - half) z) L) R = map2 (@) L R"
  proof -
    have "map2 (\<lambda>row vals. take half row @ vals @ drop (half + (w - half)) row)
               (map (\<lambda>l. l @ replicate (w - half) z) L) R
          = map2 (\<lambda>l vals. take half (l @ replicate (w - half) z) @ vals
                              @ drop (half + (w - half)) (l @ replicate (w - half) z)) L R"
      by (simp add: zip_map1 split_def)
    also have "\<dots> = map2 (@) L R"
    proof (rule map2_cong_set)
      fix x y assume "(x, y) \<in> set (zip L R)"
      then have "x \<in> set L" by (rule set_zip_leftD)
      with L(2) have "length x = half" by (simp add: list_all_iff)
      then show "take half (x @ replicate (w - half) z) @ y
                   @ drop (half + (w - half)) (x @ replicate (w - half) z) = x @ y"
        by simp
    qed
    finally show ?thesis .
  qed
  have "assign_region ?S rs re (Some (int half)) None R =
          Inr (take r0 ?S
               @ map2 (\<lambda>row vals. take half row @ vals @ drop (half + (w - half)) row)
                   (take nr (drop r0 ?S)) R
               @ drop (r0 + nr) ?S)"
    using sb cb R Rne by (intro assign_region_exact) (simp_all add: hS)
  then show ?thesis
    unfolding tk dr md mid .
qed

subsection \<open>The side-by-side modes\<close>

lemma new_height_of_exact:
  assumes "width \<noteq> offset" and "\<bar>(width div 2) * height\<bar> < 2 ^ 53"
  shows "new_height_of width height offset
           = Inr (py_int (real_of_int ((width div 2) * height) / real_of_int (width - offset)))"
  using assms by (simp add: new_height_of_def int_truediv_trunc)

lemma rows_one:
  assumes "0 < h"
  shows "slice_bounds h (Some ((int h - 1) div 2)) (Some ((int h - 1) div 2 + 1))
           = (nat ((int h - 1) div 2), 1)"
proof -
  let ?y = "(int h - 1) div 2"
  have y: "0 \<le> ?y" "?y + 1 \<le> int h" using assms by auto
  then have "norm_index h ?y = nat ?y" "norm_index h (?y + 1) = nat ?y + 1"
    by (auto simp: norm_index_def min_def)
  then show ?thesis by (simp add: slice_bounds_def)
qed

lemma intermediate_dims:
  assumes "r0 + nr \<le> h" "length L = nr" "list_all (\<lambda>r. length r = half) L" "half \<le> w" "0 < h"
  shows "img_height (replicate r0 (replicate w z) @ map (\<lambda>l. l @ replicate (w - half) z) L
                        @ replicate (h - (r0 + nr)) (replicate w z)) = h"
    and "img_width (replicate r0 (replicate w z) @ map (\<lambda>l. l @ replicate (w - half) z) L
                        @ replicate (h - (r0 + nr)) (replicate w z)) = w"
proof -
  let ?S = "replicate r0 (replicate w z) @ map (\<lambda>l. l @ replicate (w - half) z) L
              @ replicate (h - (r0 + nr)) (replicate w z)"
  show "img_height ?S = h" using assms(1,2) by (simp add: img_height_def)
  show "img_width ?S = w"
  proof (cases r0)
    case 0
    show ?thesis
    proof (cases L)
      case Nil
      with assms 0 show ?thesis by (simp add: img_width_replicate)
    next
      case (Cons l ls)
      with assms(3) have "length l = half" by simp
      then show ?thesis using 0 Cons assms(4) by (simp add: img_width_def)
    qed
  next
    case (Suc n)
    then show ?thesis by (simp add: img_width_def)
  qed
qed

lemma two_halves_char:
  assumes rect: "rectangular frame" and ok: "resize_ok cv"
    and A: "length A = length frame" "list_all (\<lambda>r. length r = k) A"
    and B: "length B = length frame" "list_all (\<lambda>r. length r = k) B"
    and w3: "k = 0 \<or> img_width frame \<noteq> 3"
  shows "two_halves cv frame offset A B =
     (case new_height_of (int (img_width frame)) (int (length frame)) offset of
        Inl e \<Rightarrow> Inl e
      | Inr nh \<Rightarrow>
          if length frame = 0 \<or> k = 0
          then Inl (Cv2Error ''(-215:Assertion failed) !ssize.empty() in function resize'')
          else if int (img_width frame) div 2 \<le> 0 \<or> nh \<le> 0
          then Inl (Cv2Error ''(-215:Assertion failed) !dsize.empty() in function resize'')
          else (case slice_bounds (length frame) (Some ((int (length frame) - nh) div 2))
                       (Some ((int (length frame) - nh) div 2 + nh)) of
                  (r0, nr) \<Rightarrow>
                    if nat nh \<noteq> nr \<or> img_width frame div 2 \<noteq> img_width frame - img_width frame div 2
                    then Inl (ValueError ''could not broadcast input array'')
                    else Inr (two_halves_rows (length frame) (img_width frame) r0 nr
                                (resize_impl cv A (img_width frame div 2) (nat nh))
                                (resize_impl cv B (img_width frame div 2) (nat nh)))))"
proof (cases "new_height_of (int (img_width frame)) (int (length frame)) offset")
  case (Inl e)
  then show ?thesis
    by (simp add: two_halves_def place_half_def img_height_def)
next
  case (Inr nh)
  let ?h = "length frame" and ?w = "img_width frame"
  let ?half = "?w div 2"
  have ihalf: "int ?w div 2 = int ?half" by simp
  have nhalf: "nat (int ?w div 2) = ?half" unfolding ihalf by (rule nat_int)
  have emptyA: "(img_height A = 0 \<or> img_width A = 0) \<longleftrightarrow> (?h = 0 \<or> k = 0)"
    using A by (cases A) (auto simp: img_height_def img_width_def)
  have emptyB: "(img_height B = 0 \<or> img_width B = 0) \<longleftrightarrow> (?h = 0 \<or> k = 0)"
    using B by (cases B) (auto simp: img_height_def img_width_def)
  show ?thesis
  proof (cases "?h = 0 \<or> k = 0")
    case True
    then show ?thesis
      using emptyA
      by (simp add: two_halves_def place_half_def img_height_def Inr cv2_resize_def)
  next
    case ne: False
    show ?thesis
    proof (cases "int ?w div 2 \<le> 0 \<or> nh \<le> 0")
      case True
      then show ?thesis
        using emptyA ne
        by (simp add: two_halves_def place_half_def img_height_def Inr cv2_resize_def)
    next
      case dims: False
      let ?n = "nat nh"
      let ?L = "resize_impl cv A ?half ?n" and ?R = "resize_impl cv B ?half ?n"
      have pos: "0 < ?half" "0 < ?n" "0 < ?h" using dims ne by auto
      have rA: "cv2_resize cv A (int ?half, nh) = Inr ?L"
        using emptyA ne pos by (simp add: cv2_resize_def)
      have rB: "cv2_resize cv B (int ?half, nh) = Inr ?R"
        using emptyB ne pos by (simp add: cv2_resize_def)
      note rA' = rA[folded ihalf] and rB' = rB[folded ihalf]
      have L: "length ?L = ?n" "list_all (\<lambda>r. length r = ?half) ?L"
        using ok pos unfolding resize_ok_def by blast+
      have R: "length ?R = ?n" "list_all (\<lambda>r. length r = ?half) ?R"
        using ok pos unfolding resize_ok_def by blast+
      have Lne: "?L \<noteq> []" and Rne: "?R \<noteq> []" using L(1) R(1) pos by auto
      have wL: "img_width ?L = ?half" using L(2) Lne by (rule img_width_rows)
      have wR: "img_width ?R = ?half" using R(2) Rne by (rule img_width_rows)
      let ?y = "(int ?h - nh) div 2"
      obtain r0 nr where sb: "slice_bounds ?h (Some ?y) (Some (?y + nh)) = (r0, nr)"
        by (cases "slice_bounds ?h (Some ?y) (Some (?y + nh))")
      have le: "r0 + nr \<le> ?h" using sb by (rule slice_bounds_le)
      have one: "nr = 1" if "?n = 1"
      proof -
        from that pos have "nh = 1" by auto
        with sb rows_one[OF pos(3)] show ?thesis by simp
      qed
      let ?Z = "replicate ?h (replicate ?w ((0, 0, 0) :: pixel))"
      have Z: "zeros_like frame = ?Z" using rect by (rule zeros_like_rect)
      have hZ: "img_height ?Z = ?h" by (simp add: img_height_def)
      have wZ: "img_width ?Z = ?w" using pos(3) by (simp add: img_width_replicate)
      have half_le: "?half \<le> ?w" by simp
      have p1: "place_half cv frame offset ?Z A None (Some (int ?half))
                  = assign_region ?Z (Some ?y) (Some (?y + nh)) None (Some (int ?half)) ?L"
        by (simp add: place_half_def img_height_def Inr rA rA' Let_def)
      have p2: "place_half cv frame offset S B (Some (int ?half)) None
                  = assign_region S (Some ?y) (Some (?y + nh)) (Some (int ?half)) None ?R" for S
        by (simp add: place_half_def img_height_def Inr rB rB' Let_def)
      have th0: "two_halves cv frame offset A B =
                   (case place_half cv frame offset ?Z A None (Some (int ?half)) of
                      Inl e \<Rightarrow> Inl e
                    | Inr s1 \<Rightarrow> place_half cv frame offset s1 B (Some (int ?half)) None)"
        by (simp only: two_halves_def Z ihalf)
      show ?thesis
      proof (cases "?n = nr")
        case False
        with one have chk: "\<not> (?n = nr \<or> ?n = 1)" by auto
        have "assign_region ?Z (Some ?y) (Some (?y + nh)) None (Some (int ?half)) ?L
                = Inl (ValueError ''could not broadcast input array'')"
          using chk by (simp add: assign_region_def hZ sb wZ slice_bounds_upto img_height_def L(1))
        then show ?thesis
          unfolding th0 p1 using False ne dims by (simp add: Inr sb)
      next
        case nr: True
        have Ln: "length ?L = nr" and Rn: "length ?R = nr" using L(1) R(1) nr by simp_all
        let ?S = "replicate r0 (replicate ?w (0, 0, 0)) @ map (\<lambda>l. l @ replicate (?w - ?half) (0, 0, 0)) ?L
              @ replicate (?h - (r0 + nr)) (replicate ?w ((0, 0, 0) :: pixel))"
        have a1: "assign_region ?Z (Some ?y) (Some (?y + nh)) None (Some (int ?half)) ?L = Inr ?S"
          using sb Ln L(2) Lne half_le pos(3) by (rule first_half_assign)
        have th: "two_halves cv frame offset A B
                    = assign_region ?S (Some ?y) (Some (?y + nh)) (Some (int ?half)) None ?R"
          unfolding th0 p1 a1 by (simp only: sum.case p2)
        show ?thesis
        proof (cases "?half = ?w - ?half")
          case False
          have "?half \<noteq> 1" using False w3 ne by auto
          with False have chk: "\<not> (?half = ?w - ?half \<or> ?half = 1)" by simp
          have dimsS: "img_height ?S = ?h" "img_width ?S = ?w"
            using le Ln L(2) half_le pos(3) by (rule intermediate_dims)+
          have "assign_region ?S (Some ?y) (Some (?y + nh)) (Some (int ?half)) None ?R
                  = Inl (ValueError ''could not broadcast input array'')"
            using chk unfolding assign_region_def dimsS sb slice_bounds_from
            by (simp add: wR)
          then show ?thesis
            using False ne dims nr by (simp add: th Inr sb)
        next
          case even: True
          have R': "list_all (\<lambda>r. length r = ?w - ?half) ?R" using R(2) even by simp
          have "assign_region ?S (Some ?y) (Some (?y + nh)) (Some (int ?half)) None ?R
                  = Inr (replicate r0 (replicate ?w (0, 0, 0)) @ map2 (@) ?L ?R
                         @ replicate (?h - (r0 + nr)) (replicate ?w (0, 0, 0)))"
            using sb Ln L(2) Lne Rn R' half_le pos(3)
            by (rule second_half_assign)
          then show ?thesis
            using even ne dims nr by (simp add: th Inr sb two_halves_rows_def)
        qed
      qed
    qed
  qed
qed



lemma swap_halves_rows:
  assumes even: "w div 2 = w - w div 2"
    and L: "list_all (\<lambda>r. length r = w div 2) L"
    and R: "list_all (\<lambda>r. length r = w div 2) R"
  shows "swap_halves (two_halves_rows h w r0 nr L R) = two_halves_rows h w r0 nr R L"
proof -
  let ?z = "replicate w ((0, 0, 0) :: pixel)"
  let ?sw = "\<lambda>row :: pixel list. drop (length row div 2) row @ take (length row div 2) row"
  have z: "?sw ?z = ?z"
  proof -
    have "?sw ?z = replicate (w - w div 2) (0, 0, 0) @ replicate (w div 2) (0, 0, 0)"
      by simp
    also have "\<dots> = replicate (w - w div 2 + w div 2) (0, 0, 0)"
      by (simp only: replicate_add)
    also have "\<dots> = ?z" by simp
    finally show ?thesis .
  qed
  have mid: "map ?sw (map2 (@) L R) = map2 (@) R L"
  proof -
    have "map ?sw (map2 (@) L R) = map2 (\<lambda>l r. ?sw (l @ r)) L R"
      by (simp add: split_def)
    also have "\<dots> = map2 (\<lambda>l r. r @ l) L R"
    proof (rule map2_cong_set)
      fix x y assume xy: "(x, y) \<in> set (zip L R)"
      then have "x \<in> set L" "y \<in> set R" by (auto dest: set_zip_leftD set_zip_rightD)
      with L R have "length x = w div 2" "length y = w div 2" by (simp_all add: list_all_iff)
      then show "?sw (x @ y) = y @ x" by simp
    qed
    also have "\<dots> = map2 (@) R L"
      by (subst zip_commute) (simp add: split_def)
    finally show ?thesis .
  qed
  show ?thesis
    unfolding swap_halves_def two_halves_rows_def map_append map_replicate z mid ..
qed

lemma slice_from_length:
  assumes "0 \<le> offset"
  shows "length (slice r (Some offset) None) = length r - nat offset"
  using assms by (auto simp: slice_def slice_bounds_def norm_index_def min_def Let_def)

lemma slice_upto_neg_length:
  assumes "0 < offset"
  shows "length (slice r None (Some (- offset))) = length r - nat offset"
  using assms by (auto simp: slice_def slice_bounds_def norm_index_def min_def max_def Let_def)

lemma crops_shape:
  assumes "rectangular frame" and "0 < offset"
  shows "length (cols frame (Some offset) None) = length frame"
    and "length (cols frame None (Some (- offset))) = length frame"
    and "list_all (\<lambda>r. length r = img_width frame - nat offset) (cols frame (Some offset) None)"
    and "list_all (\<lambda>r. length r = img_width frame - nat offset) (cols frame None (Some (- offset)))"
  using assms
  by (simp_all add: cols_def rectangular_def list_all_iff slice_from_length slice_upto_neg_length)

lemma process_cross_eye:
  "process_3d_frame cv (self\<lparr>mode_var := ''side_by_side_cross_eye''\<rparr>) frame =
     two_halves cv frame (offset_var self)
       (cols frame (Some (offset_var self)) None) (cols frame None (Some (- offset_var self)))"
  by (simp add: process_3d_frame_def two_halves_def Let_def split: sum.splits)

lemma process_parallel:
  "process_3d_frame cv (self\<lparr>mode_var := ''side_by_side_parallel''\<rparr>) frame =
     two_halves cv frame (offset_var self)
       (cols frame None (Some (- offset_var self))) (cols frame (Some (offset_var self)) None)"
  by (simp add: process_3d_frame_def two_halves_def Let_def split: sum.splits)

lemma two_halves_swap:
  assumes rect: "rectangular frame" and ok: "resize_ok cv"
    and A: "length A = length frame" "list_all (\<lambda>r. length r = k) A"
    and B: "length B = length frame" "list_all (\<lambda>r. length r = k) B"
    and w3: "k = 0 \<or> img_width frame \<noteq> 3"
  shows "two_halves cv frame offset B A = map_sum id swap_halves (two_halves cv frame offset A B)"
proof -
  note ab = two_halves_char[OF rect ok A B w3, of offset]
  note ba = two_halves_char[OF rect ok B A w3, of offset]
  show ?thesis
  proof (cases "new_height_of (int (img_width frame)) (int (length frame)) offset")
    case (Inl e)
    then show ?thesis unfolding ab ba by simp
  next
    case (Inr nh)
    obtain r0 nr where sb: "slice_bounds (length frame) (Some ((int (length frame) - nh) div 2))
                       (Some ((int (length frame) - nh) div 2 + nh)) = (r0, nr)"
      by (cases "slice_bounds (length frame) (Some ((int (length frame) - nh) div 2))
                       (Some ((int (length frame) - nh) div 2 + nh))")
    let ?w = "img_width frame"
    have sw: "swap_halves (two_halves_rows (length frame) ?w r0 m
                 (resize_impl cv A (?w div 2) n) (resize_impl cv B (?w div 2) n))
                = two_halves_rows (length frame) ?w r0 m
                 (resize_impl cv B (?w div 2) n) (resize_impl cv A (?w div 2) n)"
      if "?w div 2 = ?w - ?w div 2" "0 < ?w div 2" "0 < n" for n m
    proof -
      have "list_all (\<lambda>r. length r = ?w div 2) (resize_impl cv A (?w div 2) n)"
        "list_all (\<lambda>r. length r = ?w div 2) (resize_impl cv B (?w div 2) n)"
        using ok that(2,3) unfolding resize_ok_def by blast+
      with that(1) show ?thesis by (rule swap_halves_rows)
    qed
    show ?thesis
      unfolding ab ba by (auto simp: Inr sb sw)
  qed
qed

subsection \<open>The anaglyph modes\<close>

lemma swap_set_ch: "swap_red_green (set_ch k p v) = set_ch (swap_channel k) (swap_red_green p) v"
  by (cases p) (simp add: swap_red_green_def set_ch_def swap_channel_def)

lemma map_map2_left:
  assumes "\<And>x y. f (h x y) = h' (f' x) y"
  shows "map f (map2 h xs ys) = map2 h' (map f' xs) ys"
  by (simp add: zip_map1 assms split_def)

lemma swap_assign_channel:
  "map (map swap_red_green) (assign_channel k a g)
     = assign_channel (swap_channel k) (map (map swap_red_green) a) g"
  unfolding assign_channel_def
  by (rule map_map2_left, rule map_map2_left, rule swap_set_ch)

lemma swap_zeros: "map (map swap_red_green) (zeros h w) = zeros h w"
  by (simp add: zeros_def swap_red_green_def)

lemma slice_upto_neg:
  assumes "0 < offset"
  shows "slice r None (Some (- offset)) = take (length r - nat offset) r"
proof -
  have "nat (max 0 (- offset + int (length r))) = length r - nat offset"
    using assms by (simp add: max_def) arith
  then show ?thesis
    using assms by (simp add: slice_def slice_bounds_def norm_index_def Let_def)
qed

lemma slice_bounds_all: "slice_bounds n None None = (0, n)"
  by (simp add: slice_bounds_def)

lemma right_shifted_explicit:
  assumes o: "0 \<le> offset" and g: "list_all (\<lambda>r. length r = w) g" and ne: "g \<noteq> []"
  shows "right_shifted_of g offset = Inr (map (shift_right (nat offset)) g)"
proof -
  let ?k = "nat offset"
  let ?a = "zeros_like_gray g"
  let ?v = "if offset > 0 then cols g None (Some (- offset)) else g"
  have v: "?v = map (\<lambda>r. take (length r - ?k) r) g"
    by (simp add: cols_def slice_upto_neg)
  have a: "?a = map (\<lambda>r. replicate w 0) g"
    unfolding zeros_like_gray_def using g
    by (intro map_cong) (auto simp: list_all_iff map_replicate_const)
  have ha: "img_height ?a = length g" by (simp add: img_height_def zeros_like_gray_def)
  have wa: "img_width ?a = w" unfolding a using ne by (cases g) (simp_all add: img_width_def)
  have rb: "slice_bounds (img_height ?a) None None = (0, length g)"
    by (simp add: ha slice_bounds_all)
  have "slice_bounds w (Some (int ?k)) None = (min ?k w, w - ?k)"
    by (rule slice_bounds_from)
  then have cb: "slice_bounds (img_width ?a) (Some offset) None = (min ?k w, w - ?k)"
    using o by (simp add: wa)
  have lv: "length ?v = length g" by (simp add: cols_def)
  have rv: "list_all (\<lambda>r. length r = w - ?k) ?v"
    unfolding v using g by (auto simp: list_all_iff)
  have vne: "?v \<noteq> []" using ne by (simp add: cols_def)
  have "assign_region ?a None None (Some offset) None ?v =
          Inr (take 0 ?a
               @ map2 (\<lambda>row vals. take (min ?k w) row @ vals @ drop (min ?k w + (w - ?k)) row)
                   (take (length g) (drop 0 ?a)) ?v
               @ drop (0 + length g) ?a)"
    using rb cb lv rv vne by (rule assign_region_exact)
  also have "\<dots> = Inr (map2 (\<lambda>row vals. take (min ?k w) row @ vals @ drop (min ?k w + (w - ?k)) row)
                          (map (\<lambda>r. replicate w 0) g) (map (\<lambda>r. take (length r - ?k) r) g))"
    unfolding v by (simp add: a)
  also have "\<dots> = Inr (map (\<lambda>r. take (min ?k w) (replicate w 0) @ take (length r - ?k) r
                                  @ drop (min ?k w + (w - ?k)) (replicate w 0)) g)"
    by (simp only: map2_map_map)
  also have "\<dots> = Inr (map (shift_right ?k) g)"
    using g by (auto simp: list_all_iff shift_right_def min_def intro!: map_cong)
  finally show ?thesis by (simp add: right_shifted_of_def)
qed

lemma length_shift_right: "length (shift_right k xs) = length xs"
  by (auto simp: shift_right_def min_def)

lemma red_cyan_row_channels:
  assumes "length row = w"
  shows "map2 (set_ch 2)
           (map2 (set_ch 1)
              (map2 (set_ch 0) (replicate w (0, 0, 0)) (map (gray_impl cv) row))
              (shift_right k (map (gray_impl cv) row)))
           (shift_right k (map (gray_impl cv) row))
         = red_cyan_row cv k row"
  using assms
  by (intro nth_equalityI) (simp_all add: red_cyan_row_def length_shift_right set_ch_def)

lemma anaglyph_red_cyan_explicit:
  assumes rect: "rectangular frame" and ne: "frame \<noteq> []" "img_width frame \<noteq> 0"
    and o: "0 \<le> offset_var self"
  shows "process_3d_frame cv (self\<lparr>mode_var := ''anaglyph_red_cyan''\<rparr>) frame
           = Inr (map (red_cyan_row cv (nat (offset_var self))) frame)"
proof -
  let ?w = "img_width frame" and ?k = "nat (offset_var self)"
  let ?G = "map (map (gray_impl cv)) frame"
  let ?S = "map (shift_right ?k) ?G"
  have len: "\<And>r. r \<in> set frame \<Longrightarrow> length r = ?w"
    using rect by (simp add: rectangular_def list_all_iff)
  have gray: "cvtColor_RGB2GRAY cv frame = Inr ?G"
    using ne by (simp add: cvtColor_RGB2GRAY_def img_height_def)
  have G: "list_all (\<lambda>r. length r = ?w) ?G" "?G \<noteq> []"
    using len ne by (simp_all add: list_all_iff)
  have sh: "right_shifted_of ?G (offset_var self) = Inr ?S"
    using o G by (rule right_shifted_explicit)
  have Z: "zeros (img_height frame) ?w = map (\<lambda>r. replicate ?w (0, 0, 0)) frame"
    by (simp add: zeros_def img_height_def map_replicate_const)
  have "assign_channel 2 (assign_channel 1 (assign_channel 0 (zeros (img_height frame) ?w) ?G) ?S) ?S
          = map (\<lambda>row. map2 (set_ch 2)
                   (map2 (set_ch 1)
                      (map2 (set_ch 0) (replicate ?w (0, 0, 0)) (map (gray_impl cv) row))
                      (shift_right ?k (map (gray_impl cv) row)))
                   (shift_right ?k (map (gray_impl cv) row))) frame"
    unfolding assign_channel_def Z
    by (simp add: zip_map1 zip_map2 zip_same_conv_map split_def comp_def)
  also have "\<dots> = map (red_cyan_row cv ?k) frame"
  proof (rule map_cong[OF refl])
    fix row assume "row \<in> set frame"
    then have "length row = ?w" by (rule len)
    then show "map2 (set_ch 2)
                   (map2 (set_ch 1)
                      (map2 (set_ch 0) (replicate ?w (0, 0, 0)) (map (gray_impl cv) row))
                      (shift_right ?k (map (gray_impl cv) row)))
                   (shift_right ?k (map (gray_impl cv) row)) = red_cyan_row cv ?k row"
      by (rule red_cyan_row_channels)
  qed
  finally show ?thesis
    by (simp add: process_3d_frame_def gray sh Let_def)
qed

lemma green_magenta_from_red_cyan:
  "process_3d_frame cv (self\<lparr>mode_var := ''anaglyph_green_magenta''\<rparr>) frame
     = map_sum id (map (map swap_red_green))
         (process_3d_frame cv (self\<lparr>mode_var := ''anaglyph_red_cyan''\<rparr>) frame)"
  by (simp add: process_3d_frame_def Let_def swap_assign_channel swap_zeros swap_channel_def
        split: sum.splits)

subsection \<open>The example frames\<close>

lemma nn_resize_ok: "resize_ok ex_cv"
  by (simp add: resize_ok_def ex_cv_def nn_resize_def list_all_iff)

lemma ex_frame_rectangular: "rectangular ex_frame"
  by (simp add: rectangular_def ex_frame_def img_width_def)

subsection \<open>A 640 by 480 frame in cross-eye mode\<close>

lemma new_height_640x480: "new_height_of 640 480 10 = Inr 243"
  by (simp add: new_height_of_exact py_int_def)

lemma rows_640x480: "slice_bounds 480 (Some 118) (Some 361) = (118, 243)"
  by (simp add: slice_bounds_def norm_index_def)

lemma cross_eye_480x640:
  assumes rect: "rectangular frame" and dims: "length frame = 480" "img_width frame = 640"
    and ok: "resize_ok cv" and o: "offset_var self = 10"
  shows "process_3d_frame cv (self\<lparr>mode_var := ''side_by_side_cross_eye''\<rparr>) frame
           = Inr (two_halves_rows 480 640 118 243
                    (resize_impl cv (cols frame (Some 10) None) 320 243)
                    (resize_impl cv (cols frame None (Some (- 10))) 320 243))"
proof -
  have pos: "0 < (10 :: int)" by simp
  note c = crops_shape[OF rect pos]
  have w3: "img_width frame - nat 10 = 0 \<or> img_width frame \<noteq> 3" by (simp add: dims)
  note ch = two_halves_char[OF rect ok c(1,3,2,4) w3, of 10]
  show ?thesis
    unfolding process_cross_eye o ch
    by (simp add: dims new_height_640x480 rows_640x480)
qed

lemma nn_resize_const:
  assumes "0 < h" "0 < w" "0 < dw" "0 < dh"
  shows "nn_resize (replicate h (replicate w p)) dw dh = replicate dh (replicate dw p)"
proof -
  have y: "y * h div dh < h" if "y < dh" for y
    using that assms by (simp add: less_mult_imp_div_less mult.commute)
  have x: "x * w div dw < w" if "x < dw" for x
    using that assms by (simp add: less_mult_imp_div_less mult.commute)
  have "nn_resize (replicate h (replicate w p)) dw dh
          = map (\<lambda>y. map (\<lambda>x. p) [0..<dw]) [0..<dh]"
    unfolding nn_resize_def using assms
    by (intro map_cong refl) (simp add: img_height_def img_width_replicate x y)
  then show ?thesis by (simp add: map_replicate_trivial)
qed

lemma white_frame_shape:
  "rectangular white_frame" "length white_frame = 480" "img_width white_frame = 640"
  by (simp_all add: white_frame_def rectangular_def img_width_replicate list_all_iff)

lemma white_crops:
  "cols white_frame (Some 10) None = replicate 480 (replicate 630 (255, 255, 255))"
  "cols white_frame None (Some (- 10)) = replicate 480 (replicate 630 (255, 255, 255))"
  by (simp_all add: white_frame_def cols_def slice_def slice_bounds_def norm_index_def)

lemma white_cross_eye:
  "process_3d_frame ex_cv \<lparr>mode_var = ''side_by_side_cross_eye'', offset_var = 10\<rparr> white_frame
     = Inr (replicate 118 (replicate 640 (0, 0, 0))
            @ replicate 243 (replicate 640 (255, 255, 255))
            @ replicate 119 (replicate 640 (0, 0, 0)))"
proof -
  let ?self = "\<lparr>mode_var = '''', offset_var = 10\<rparr>"
  have o: "offset_var ?self = 10" by simp
  have r: "resize_impl ex_cv (replicate 480 (replicate 630 (255, 255, 255))) 320 243
             = replicate 243 (replicate 320 (255, 255, 255))"
    by (simp add: ex_cv_def nn_resize_const)
  have w: "replicate 320 p @ replicate 320 p = replicate 640 p" for p :: pixel
    using replicate_add[of 320 320 p] by simp
  from cross_eye_480x640[OF white_frame_shape nn_resize_ok o]
  show ?thesis
    by (simp add: white_crops r w two_halves_rows_def)
qed

lemma black_row_replicate:
  "black_row (replicate n (0, 0, 0))" "0 < n \<Longrightarrow> \<not> black_row (replicate n (255, 255, 255))"
  by (simp_all add: black_row_def list_all_iff)

lemma margins_three_bands:
  assumes "black_row b" "\<not> black_row c" "0 < m"
  shows "top_margin (replicate n b @ replicate m c @ replicate k b) = n"
    and "bottom_margin (replicate n b @ replicate m c @ replicate k b) = k"
proof -
  obtain m' where m: "m = Suc m'" using assms(3) by (cases m) auto
  have tw: "takeWhile black_row (replicate j b @ replicate m c @ ys) = replicate j b" for j ys
    using assms(1,2) by (induction j) (simp_all add: m)
  show "top_margin (replicate n b @ replicate m c @ replicate k b) = n"
    by (simp add: top_margin_def tw)
  have "rev (replicate n b @ replicate m c @ replicate k b)
          = replicate k b @ replicate m c @ replicate n b"
    by simp
  then show "bottom_margin (replicate n b @ replicate m c @ replicate k b) = k"
    by (simp add: bottom_margin_def tw)
qed

subsection \<open>The small example frames\<close>

lemma luma_vals:
  "luma (10, 20, 30) = 18" "luma (40, 50, 60) = 48" "luma (70, 80, 90) = 78"
  "luma (100, 110, 120) = 108" "luma (130, 140, 150) = 138" "luma (160, 170, 180) = 168"
  "luma (190, 200, 210) = 198"
  by (simp_all add: luma_def)

lemma ex_strip_shape:
  "rectangular ex_strip" "ex_strip \<noteq> []" "img_width ex_strip \<noteq> 0"
  by (simp_all add: ex_strip_def rectangular_def img_width_def)

lemma ex_strip_red_cyan:
  "map (red_cyan_row ex_cv 5) ex_strip
     = [[(18, 0, 0), (48, 0, 0), (78, 0, 0), (108, 0, 0), (138, 0, 0),
         (168, 18, 18), (198, 48, 48)]]"
  "map (red_cyan_row ex_cv 150) ex_strip
     = [[(18, 0, 0), (48, 0, 0), (78, 0, 0), (108, 0, 0), (138, 0, 0),
         (168, 0, 0), (198, 0, 0)]]"
  by (simp_all add: red_cyan_row_def shift_right_def ex_strip_def ex_cv_def luma_vals)

lemma cross_eye_layout:
  assumes rect: "rectangular frame" and ok: "resize_ok cv" and o: "0 < offset_var self"
    and nh: "new_height_of (int (img_width frame)) (int (length frame)) (offset_var self) = Inr nh"
    and pos: "0 < nh" "0 < img_width frame div 2" "nat (offset_var self) < img_width frame"
      "frame \<noteq> []"
    and sb: "slice_bounds (length frame) (Some ((int (length frame) - nh) div 2))
               (Some ((int (length frame) - nh) div 2 + nh)) = (r0, nat nh)"
    and even: "img_width frame div 2 = img_width frame - img_width frame div 2"
  shows "process_3d_frame cv (self\<lparr>mode_var := ''side_by_side_cross_eye''\<rparr>) frame
           = Inr (two_halves_rows (length frame) (img_width frame) r0 (nat nh)
                    (resize_impl cv (cols frame (Some (offset_var self)) None)
                       (img_width frame div 2) (nat nh))
                    (resize_impl cv (cols frame None (Some (- offset_var self)))
                       (img_width frame div 2) (nat nh)))"
proof -
  note c = crops_shape[OF rect o]
  have w3: "img_width frame - nat (offset_var self) = 0 \<or> img_width frame \<noteq> 3"
    using even by auto
  note ch = two_halves_char[OF rect ok c(1,3,2,4) w3, of "offset_var self"]
  have d: "\<not> (length frame = 0 \<or> img_width frame - nat (offset_var self) = 0)"
    "\<not> (int (img_width frame) div 2 \<le> 0 \<or> nh \<le> 0)"
    using pos by auto
  show ?thesis
    unfolding process_cross_eye ch nh sum.case if_not_P[OF d(1)] if_not_P[OF d(2)] sb
    using even by simp
qed

lemma ex_frame_shape: "rectangular ex_frame" "length ex_frame = 1" "img_width ex_frame = 20"
  by (simp_all add: ex_frame_def rectangular_def img_width_def)

lemma ex_frame_crops:
  "cols ex_frame (Some 10) None = [map (\<lambda>i. (of_nat i, 0, 0)) [10..<20]]"
  "cols ex_frame None (Some (- 10)) = [map (\<lambda>i. (of_nat i, 0, 0)) [0..<10]]"
  by (simp_all add: ex_frame_def cols_def slice_def slice_bounds_def norm_index_def
        drop_map take_map del: upt_rec_numeral)

lemma nn_resize_row:
  assumes "length row = n" "0 < n"
  shows "nn_resize [row] n 1 = [row]"
proof -
  have "map (\<lambda>x. [row] ! 0 ! (x * n div n)) [0..<n] = map (\<lambda>x. row ! x) [0..<n]"
    using assms by (intro map_cong) simp_all
  also have "\<dots> = row" using map_nth[of row] assms(1) by simp
  finally show ?thesis
    using assms by (simp add: nn_resize_def img_height_def img_width_def)
qed

lemma ex_frame_cross_eye:
  "process_3d_frame ex_cv \<lparr>mode_var = ''side_by_side_cross_eye'', offset_var = 10\<rparr> ex_frame
     = Inr [map (\<lambda>i. (of_nat i, 0, 0)) ([10..<20] @ [0..<10])]"
proof -
  let ?self = "\<lparr>mode_var = '''', offset_var = 10\<rparr>"
  have o: "0 < offset_var ?self" by simp
  have nh: "new_height_of (int (img_width ex_frame)) (int (length ex_frame)) (offset_var ?self)
              = Inr 1"
    by (simp add: ex_frame_shape new_height_of_exact py_int_def)
  have pos: "0 < (1 :: int)" "0 < img_width ex_frame div 2"
    "nat (offset_var ?self) < img_width ex_frame" "ex_frame \<noteq> []"
    by (simp_all add: ex_frame_shape) (simp add: ex_frame_def)
  have sb: "slice_bounds (length ex_frame) (Some ((int (length ex_frame) - 1) div 2))
               (Some ((int (length ex_frame) - 1) div 2 + 1)) = (0, nat 1)"
    by (simp add: ex_frame_shape slice_bounds_def norm_index_def)
  have even: "img_width ex_frame div 2 = img_width ex_frame - img_width ex_frame div 2"
    by (simp add: ex_frame_shape)
  have r: "resize_impl ex_cv [map f [a..<b]] 10 (Suc 0) = [map f [a..<b]]" if "b - a = 10"
    for f :: "nat \<Rightarrow> pixel" and a b
    using that nn_resize_row[of "map f [a..<b]" 10] by (simp add: ex_cv_def)
  have half: "img_width ex_frame div 2 = 10" by (simp add: ex_frame_shape)
  have "process_3d_frame ex_cv (?self\<lparr>mode_var := ''side_by_side_cross_eye''\<rparr>) ex_frame
          = Inr (two_halves_rows 1 20 0 1 [map (\<lambda>i. (of_nat i, 0, 0)) [10..<20]]
                   [map (\<lambda>i. (of_nat i, 0, 0)) [0..<10]])"
    unfolding cross_eye_layout[OF ex_frame_rectangular nn_resize_ok o nh pos sb even]
      half ex_frame_shape
    by (simp add: ex_frame_crops r del: upt_rec_numeral)
  then show ?thesis by (simp add: two_halves_rows_def del: upt_rec_numeral)
qed

lemma ex_strip_anaglyph:
  "process_3d_frame ex_cv \<lparr>mode_var = ''anaglyph_red_cyan'', offset_var = 5\<rparr> ex_strip
     = Inr [[(18, 0, 0), (48, 0, 0), (78, 0, 0), (108, 0, 0), (138, 0, 0),
             (168, 18, 18), (198, 48, 48)]]"
  "process_3d_frame ex_cv \<lparr>mode_var = ''anaglyph_red_cyan'', offset_var = 150\<rparr> ex_strip
     = Inr [[(18, 0, 0), (48, 0, 0), (78, 0, 0), (108, 0, 0), (138, 0, 0),
             (168, 0, 0), (198, 0, 0)]]"
proof -
  have a: "process_3d_frame ex_cv \<lparr>mode_var = ''anaglyph_red_cyan'', offset_var = k\<rparr> ex_strip
             = Inr (map (red_cyan_row ex_cv (nat k)) ex_strip)" if "0 \<le> k" for k
    using anaglyph_red_cyan_explicit[OF ex_strip_shape,
        of "\<lparr>mode_var = [], offset_var = k\<rparr>" ex_cv] that
    by simp
  show "process_3d_frame ex_cv \<lparr>mode_var = ''anaglyph_red_cyan'', offset_var = 5\<rparr> ex_strip
     = Inr [[(18, 0, 0), (48, 0, 0), (78, 0, 0), (108, 0, 0), (138, 0, 0),
             (168, 18, 18), (198, 48, 48)]]"
    using a[of 5] by (simp add: ex_strip_red_cyan)
  show "process_3d_frame ex_cv \<lparr>mode_var = ''anaglyph_red_cyan'', offset_var = 150\<rparr> ex_strip
     = Inr [[(18, 0, 0), (48, 0, 0), (78, 0, 0), (108, 0, 0), (138, 0, 0),
             (168, 0, 0), (198, 0, 0)]]"
    using a[of 150] by (simp add: ex_strip_red_cyan)
qed


subsection \<open>The side-by-side modes at any offset\<close>

lemma rows_centered:
  assumes "0 < nh" and "nh \<le> int h"
  shows "slice_bounds h (Some ((int h - nh) div 2)) (Some ((int h - nh) div 2 + nh))
           = (nat ((int h - nh) div 2), nat nh)"
proof -
  let ?y = "(int h - nh) div 2"
  have y: "0 \<le> ?y" "?y + nh \<le> int h" using assms by auto
  then have "norm_index h ?y = nat ?y" "norm_index h (?y + nh) = nat ?y + nat nh"
    using assms(1) by (auto simp: norm_index_def min_def nat_add_distrib)
  then show ?thesis by (simp add: slice_bounds_def)
qed

lemma parallel_layout:
  assumes rect: "rectangular frame" and ok: "resize_ok cv" and o: "0 < offset_var self"
    and nh: "new_height_of (int (img_width frame)) (int (length frame)) (offset_var self) = Inr nh"
    and pos: "0 < nh" "0 < img_width frame div 2" "nat (offset_var self) < img_width frame"
      "frame \<noteq> []"
    and sb: "slice_bounds (length frame) (Some ((int (length frame) - nh) div 2))
               (Some ((int (length frame) - nh) div 2 + nh)) = (r0, nat nh)"
    and even: "img_width frame div 2 = img_width frame - img_width frame div 2"
  shows "process_3d_frame cv (self\<lparr>mode_var := ''side_by_side_parallel''\<rparr>) frame
           = Inr (two_halves_rows (length frame) (img_width frame) r0 (nat nh)
                    (resize_impl cv (cols frame None (Some (- offset_var self)))
                       (img_width frame div 2) (nat nh))
                    (resize_impl cv (cols frame (Some (offset_var self)) None)
                       (img_width frame div 2) (nat nh)))"
proof -
  note c = crops_shape[OF rect o]
  have w3: "img_width frame - nat (offset_var self) = 0 \<or> img_width frame \<noteq> 3"
    using even by auto
  note ch = two_halves_char[OF rect ok c(2,4,1,3) w3, of "offset_var self"]
  have d: "\<not> (length frame = 0 \<or> img_width frame - nat (offset_var self) = 0)"
    "\<not> (int (img_width frame) div 2 \<le> 0 \<or> nh \<le> 0)"
    using pos by auto
  show ?thesis
    unfolding process_parallel ch nh sum.case if_not_P[OF d(1)] if_not_P[OF d(2)] sb
    using even by simp
qed

lemma side_by_side_layout:
  assumes rect: "rectangular frame" and ne: "frame \<noteq> []" and ok: "resize_ok cv"
    and ev: "even (img_width frame)"
    and o: "0 < offset_var self" "offset_var self < int (img_width frame)"
    and nh: "new_height_of (int (img_width frame)) (int (length frame)) (offset_var self) = Inr nh"
    and fit: "0 < nh" "nh \<le> int (length frame)"
  shows "process_3d_frame cv (self\<lparr>mode_var := ''side_by_side_cross_eye''\<rparr>) frame
           = Inr (two_halves_rows (length frame) (img_width frame)
                    (nat ((int (length frame) - nh) div 2)) (nat nh)
                    (resize_impl cv (cols frame (Some (offset_var self)) None)
                       (img_width frame div 2) (nat nh))
                    (resize_impl cv (cols frame None (Some (- offset_var self)))
                       (img_width frame div 2) (nat nh)))"
    and "process_3d_frame cv (self\<lparr>mode_var := ''side_by_side_parallel''\<rparr>) frame
           = Inr (two_halves_rows (length frame) (img_width frame)
                    (nat ((int (length frame) - nh) div 2)) (nat nh)
                    (resize_impl cv (cols frame None (Some (- offset_var self)))
                       (img_width frame div 2) (nat nh))
                    (resize_impl cv (cols frame (Some (offset_var self)) None)
                       (img_width frame div 2) (nat nh)))"
proof -
  have w: "0 < img_width frame" using o by linarith
  have even: "img_width frame div 2 = img_width frame - img_width frame div 2"
    using ev by (auto elim: evenE)
  have half: "0 < img_width frame div 2" using ev w by (auto elim: evenE)
  have lt: "nat (offset_var self) < img_width frame" using o by linarith
  note sb = rows_centered[OF fit]
  show "process_3d_frame cv (self\<lparr>mode_var := ''side_by_side_cross_eye''\<rparr>) frame
           = Inr (two_halves_rows (length frame) (img_width frame)
                    (nat ((int (length frame) - nh) div 2)) (nat nh)
                    (resize_impl cv (cols frame (Some (offset_var self)) None)
                       (img_width frame div 2) (nat nh))
                    (resize_impl cv (cols frame None (Some (- offset_var self)))
                       (img_width frame div 2) (nat nh)))"
    using rect ok o(1) nh fit(1) half lt ne sb even by (rule cross_eye_layout)
  show "process_3d_frame cv (self\<lparr>mode_var := ''side_by_side_parallel''\<rparr>) frame
           = Inr (two_halves_rows (length frame) (img_width frame)
                    (nat ((int (length frame) - nh) div 2)) (nat nh)
                    (resize_impl cv (cols frame None (Some (- offset_var self)))
                       (img_width frame div 2) (nat nh))
                    (resize_impl cv (cols frame (Some (offset_var self)) None)
                       (img_width frame div 2) (nat nh)))"
    using rect ok o(1) nh fit(1) half lt ne sb even by (rule parallel_layout)
qed

subsection \<open>The frame of two rows at offset 5\<close>

lemma two_row_frame_shape:
  "rectangular two_row_frame" "two_row_frame \<noteq> []" "length two_row_frame = 2"
  "img_width two_row_frame = 20"
  by (simp_all add: two_row_frame_def rectangular_def img_width_def)

lemma two_row_crops:
  "cols two_row_frame (Some 5) None
     = [map (\<lambda>i. (of_nat i, 0, 0)) [5..<20], map (\<lambda>i. (of_nat i, 1, 0)) [5..<20]]"
  "cols two_row_frame None (Some (- 5))
     = [map (\<lambda>i. (of_nat i, 0, 0)) [0..<15], map (\<lambda>i. (of_nat i, 1, 0)) [0..<15]]"
  by (simp_all add: two_row_frame_def cols_def slice_def slice_bounds_def norm_index_def
        drop_map take_map del: upt_rec_numeral)

lemma nn_resize_two_rows:
  "nn_resize [map f [a..<a + 15], r] 10 1
     = [map f [a, a + 1, a + 3, a + 4, a + 6, a + 7, a + 9, a + 10, a + 12, a + 13]]"
proof -
  have "[0..<10] = [0, 1, 2, 3, 4, 5, 6, 7, 8, 9 :: nat]" by (simp add: upt_conv_Cons)
  then show ?thesis
    by (simp add: nn_resize_def img_height_def img_width_def)
qed

lemma two_row_halves:
  "resize_impl ex_cv (cols two_row_frame (Some 5) None) 10 (Suc 0)
     = [map (\<lambda>i. (of_nat i, 0, 0)) [5, 6, 8, 9, 11, 12, 14, 15, 17, 18]]"
  "resize_impl ex_cv (cols two_row_frame None (Some (- 5))) 10 (Suc 0)
     = [map (\<lambda>i. (of_nat i, 0, 0)) [0, 1, 3, 4, 6, 7, 9, 10, 12, 13]]"
  using nn_resize_two_rows[of "\<lambda>i. (of_nat i, 0, 0)" 5]
    nn_resize_two_rows[of "\<lambda>i. (of_nat i, 0, 0)" 0]
  by (simp_all add: two_row_crops ex_cv_def del: upt_rec_numeral)

lemma two_row_new_height: "new_height_of 20 2 5 = Inr 1"
  by (simp add: new_height_of_exact py_int_def)

lemma two_row_side_by_side:
  "process_3d_frame ex_cv \<lparr>mode_var = ''side_by_side_cross_eye'', offset_var = 5\<rparr> two_row_frame
     = Inr [map (\<lambda>i. (of_nat i, 0, 0))
              [5, 6, 8, 9, 11, 12, 14, 15, 17, 18, 0, 1, 3, 4, 6, 7, 9, 10, 12, 13],
            replicate 20 (0, 0, 0)]"
  "process_3d_frame ex_cv \<lparr>mode_var = ''side_by_side_parallel'', offset_var = 5\<rparr> two_row_frame
     = Inr [map (\<lambda>i. (of_nat i, 0, 0))
              [0, 1, 3, 4, 6, 7, 9, 10, 12, 13, 5, 6, 8, 9, 11, 12, 14, 15, 17, 18],
            replicate 20 (0, 0, 0)]"
proof -
  let ?self = "\<lparr>mode_var = [], offset_var = 5\<rparr>"
  have ev: "even (img_width two_row_frame)" by (simp add: two_row_frame_shape)
  have o: "0 < offset_var ?self" "offset_var ?self < int (img_width two_row_frame)"
    by (simp_all add: two_row_frame_shape)
  have nh: "new_height_of (int (img_width two_row_frame)) (int (length two_row_frame))
              (offset_var ?self) = Inr 1"
    by (simp add: two_row_frame_shape two_row_new_height)
  have fit: "0 < (1 :: int)" "1 \<le> int (length two_row_frame)"
    by (simp_all add: two_row_frame_shape)
  note l = side_by_side_layout[OF two_row_frame_shape(1,2) nn_resize_ok ev o nh fit]
  show "process_3d_frame ex_cv \<lparr>mode_var = ''side_by_side_cross_eye'', offset_var = 5\<rparr>
          two_row_frame
     = Inr [map (\<lambda>i. (of_nat i, 0, 0))
              [5, 6, 8, 9, 11, 12, 14, 15, 17, 18, 0, 1, 3, 4, 6, 7, 9, 10, 12, 13],
            replicate 20 (0, 0, 0)]"
    using l(1) by (simp add: two_row_frame_shape two_row_halves two_halves_rows_def)
  show "process_3d_frame ex_cv \<lparr>mode_var = ''side_by_side_parallel'', offset_var = 5\<rparr>
          two_row_frame
     = Inr [map (\<lambda>i. (of_nat i, 0, 0))
              [0, 1, 3, 4, 6, 7, 9, 10, 12, 13, 5, 6, 8, 9, 11, 12, 14, 15, 17, 18],
            replicate 20 (0, 0, 0)]"
    using l(2) by (simp add: two_row_frame_shape two_row_halves two_halves_rows_def)
qed

subsection \<open>Claims about the stereo transform\<close>

text \<open>
  Claim C5. For every frame (a rectangular array), every interpolation that returns the
  size asked for, and every offset in \<open>[10,100]\<close>, the result of the parallel mode is the
  result of the cross-eye mode with the left and the right half of every row swapped; the
  two modes raise the same exception on the frames where they raise.
\<close>

theorem cross_eye_parallel_swapped:
  assumes "rectangular frame" and "resize_ok cv"
    and "10 \<le> offset_var self" and "offset_var self \<le> 100"
  shows "process_3d_frame cv (self\<lparr>mode_var := ''side_by_side_parallel''\<rparr>) frame =
           map_sum id swap_halves
             (process_3d_frame cv (self\<lparr>mode_var := ''side_by_side_cross_eye''\<rparr>) frame)"
proof -
  let ?o = "offset_var self"
  have o: "0 < ?o" using assms(3) by simp
  note c = crops_shape[OF assms(1) o]
  have w3: "img_width frame - nat ?o = 0 \<or> img_width frame \<noteq> 3"
    using assms(3) by auto
  show ?thesis
    unfolding process_cross_eye process_parallel
    using assms(1,2) c(1,3,2,4) w3 by (rule two_halves_swap)
qed

text \<open>
  On the frame of one row and twenty columns with offset 10, the cross-eye mode puts
  columns 10 to 19 in the left half and columns 0 to 9 in the right half.
\<close>

theorem cross_eye_parallel_swapped_witness:
  "rectangular ex_frame \<and> resize_ok ex_cv
   \<and> 10 \<le> offset_var \<lparr>mode_var = [], offset_var = 10\<rparr>
   \<and> offset_var \<lparr>mode_var = [], offset_var = 10\<rparr> \<le> 100
   \<and> process_3d_frame ex_cv \<lparr>mode_var = ''side_by_side_cross_eye'', offset_var = 10\<rparr> ex_frame
       = Inr [map (\<lambda>i. (of_nat i, 0, 0)) ([10..<20] @ [0..<10])]
   \<and> process_3d_frame ex_cv \<lparr>mode_var = ''side_by_side_parallel'', offset_var = 10\<rparr> ex_frame
       = Inr (swap_halves [map (\<lambda>i. (of_nat i, 0, 0)) ([10..<20] @ [0..<10])])"
proof -
  let ?self = "\<lparr>mode_var = [], offset_var = 10\<rparr>"
  have h: "10 \<le> offset_var ?self" "offset_var ?self \<le> 100" by simp_all
  have ce: "process_3d_frame ex_cv (?self\<lparr>mode_var := ''side_by_side_cross_eye''\<rparr>) ex_frame
              = Inr [map (\<lambda>i. (of_nat i, 0, 0)) ([10..<20] @ [0..<10])]"
    using ex_frame_cross_eye by simp
  from cross_eye_parallel_swapped[OF ex_frame_rectangular nn_resize_ok h] ce
  have "process_3d_frame ex_cv (?self\<lparr>mode_var := ''side_by_side_parallel''\<rparr>) ex_frame
          = Inr (swap_halves [map (\<lambda>i. (of_nat i, 0, 0)) ([10..<20] @ [0..<10])])"
    by simp
  with ce ex_frame_rectangular nn_resize_ok show ?thesis by simp
qed

text \<open>
  Claim C6. For every frame and every offset, the result of the green-magenta anaglyph
  mode is the result of the red-cyan anaglyph mode with the red and the green channel of
  every pixel swapped and the blue channel unchanged; the two modes raise the same
  exception on the frames where they raise.
\<close>

theorem anaglyph_modes_swap_red_green:
  "process_3d_frame cv (self\<lparr>mode_var := ''anaglyph_green_magenta''\<rparr>) frame
     = map_sum id (map (map swap_red_green))
         (process_3d_frame cv (self\<lparr>mode_var := ''anaglyph_red_cyan''\<rparr>) frame)"
  by (simp add: process_3d_frame_def Let_def swap_assign_channel swap_zeros swap_channel_def
        split: sum.splits)

theorem anaglyph_modes_swap_red_green_witness:
  "process_3d_frame ex_cv \<lparr>mode_var = ''anaglyph_red_cyan'', offset_var = 5\<rparr> ex_strip
     = Inr [[(18, 0, 0), (48, 0, 0), (78, 0, 0), (108, 0, 0), (138, 0, 0),
             (168, 18, 18), (198, 48, 48)]]
   \<and> process_3d_frame ex_cv \<lparr>mode_var = ''anaglyph_green_magenta'', offset_var = 5\<rparr> ex_strip
     = Inr [[(0, 18, 0), (0, 48, 0), (0, 78, 0), (0, 108, 0), (0, 138, 0),
             (18, 168, 18), (48, 198, 48)]]"
proof -
  let ?self = "\<lparr>mode_var = [], offset_var = 5\<rparr>"
  have rc: "process_3d_frame ex_cv (?self\<lparr>mode_var := ''anaglyph_red_cyan''\<rparr>) ex_strip
              = Inr [[(18, 0, 0), (48, 0, 0), (78, 0, 0), (108, 0, 0), (138, 0, 0),
                      (168, 18, 18), (198, 48, 48)]]"
    using ex_strip_anaglyph(1) by simp
  from anaglyph_modes_swap_red_green[of ex_cv ?self ex_strip] rc
  have "process_3d_frame ex_cv (?self\<lparr>mode_var := ''anaglyph_green_magenta''\<rparr>) ex_strip
          = Inr (map (map swap_red_green)
                   [[(18, 0, 0), (48, 0, 0), (78, 0, 0), (108, 0, 0), (138, 0, 0),
                     (168, 18, 18), (198, 48, 48)]])"
    by simp
  with rc show ?thesis by (simp add: swap_red_green_def)
qed

text \<open>
  Claim C3, as stated: an offset outside \<open>[10,100]\<close>, such as 5 or 150, is rejected with
  \<open>InvalidParamError\<close> and no output frame is produced. It fails on the code, which has no
  check of the offset: on a frame of one row and seven columns the red-cyan anaglyph
  mode returns a frame for offset 5 (luminance shifted by five columns) and for offset 150
  (luminance shifted out of the frame), and on a frame of two rows and twenty columns the
  cross-eye mode returns a frame for offset 5, the two halves trimmed by five columns.
\<close>

theorem offset_out_of_range_counterexample:
  "process_3d_frame ex_cv \<lparr>mode_var = ''anaglyph_red_cyan'', offset_var = 5\<rparr> ex_strip
     = Inr [[(18, 0, 0), (48, 0, 0), (78, 0, 0), (108, 0, 0), (138, 0, 0),
             (168, 18, 18), (198, 48, 48)]]
   \<and> process_3d_frame ex_cv \<lparr>mode_var = ''anaglyph_red_cyan'', offset_var = 150\<rparr> ex_strip
     = Inr [[(18, 0, 0), (48, 0, 0), (78, 0, 0), (108, 0, 0), (138, 0, 0),
             (168, 0, 0), (198, 0, 0)]]
   \<and> process_3d_frame ex_cv \<lparr>mode_var = ''side_by_side_cross_eye'', offset_var = 5\<rparr>
         two_row_frame
     = Inr [map (\<lambda>i. (of_nat i, 0, 0))
              [5, 6, 8, 9, 11, 12, 14, 15, 17, 18, 0, 1, 3, 4, 6, 7, 9, 10, 12, 13],
            replicate 20 (0, 0, 0)]"
  by (intro conjI ex_strip_anaglyph two_row_side_by_side)

text \<open>
  Claim C3, amended: the stereo transform does not check the offset and rejects none for
  being outside \<open>[10,100]\<close>; in all four modes the offset is used as it is, never clamped.
  In both anaglyph modes every offset that is not negative gives an output frame on every
  frame that is not empty: the luminance in one channel and, in the other two, the
  luminance shifted right by exactly the offset, zero in the columns before it. In both
  side-by-side modes every positive offset below the width of a frame of even width, for
  which the height \<open>int((width//2) * height / (width - offset))\<close> of the resized halves is
  positive and at most the height of the frame, gives an output frame: black rows, then
  the rows of the two resized halves side by side, then black rows, where one half is the
  frame without its first \<open>offset\<close> columns and the other the frame without its last
  \<open>offset\<close> columns (cross-eye puts the first of them on the left, parallel on the right).
\<close>

theorem stereo_transform_any_offset:
  assumes "rectangular frame" and "frame \<noteq> []" and "img_width frame \<noteq> 0"
  shows "(0 \<le> offset_var self \<longrightarrow>
            process_3d_frame cv (self\<lparr>mode_var := ''anaglyph_red_cyan''\<rparr>) frame
              = Inr (map (red_cyan_row cv (nat (offset_var self))) frame)
            \<and> process_3d_frame cv (self\<lparr>mode_var := ''anaglyph_green_magenta''\<rparr>) frame
              = Inr (map (map swap_red_green \<circ> red_cyan_row cv (nat (offset_var self))) frame))
       \<and> (resize_ok cv \<and> even (img_width frame)
            \<and> 0 < offset_var self \<and> offset_var self < int (img_width frame)
            \<and> new_height_of (int (img_width frame)) (int (length frame)) (offset_var self)
                = Inr nh
            \<and> 0 < nh \<and> nh \<le> int (length frame) \<longrightarrow>
            process_3d_frame cv (self\<lparr>mode_var := ''side_by_side_cross_eye''\<rparr>) frame
              = Inr (two_halves_rows (length frame) (img_width frame)
                       (nat ((int (length frame) - nh) div 2)) (nat nh)
                       (resize_impl cv (cols frame (Some (offset_var self)) None)
                          (img_width frame div 2) (nat nh))
                       (resize_impl cv (cols frame None (Some (- offset_var self)))
                          (img_width frame div 2) (nat nh)))
            \<and> process_3d_frame cv (self\<lparr>mode_var := ''side_by_side_parallel''\<rparr>) frame
              = Inr (two_halves_rows (length frame) (img_width frame)
                       (nat ((int (length frame) - nh) div 2)) (nat nh)
                       (resize_impl cv (cols frame None (Some (- offset_var self)))
                          (img_width frame div 2) (nat nh))
                       (resize_impl cv (cols frame (Some (offset_var self)) None)
                          (img_width frame div 2) (nat nh))))"
proof (intro conjI impI)
  assume o: "0 \<le> offset_var self"
  note rc = anaglyph_red_cyan_explicit[OF assms o, of cv]
  show "process_3d_frame cv (self\<lparr>mode_var := ''anaglyph_red_cyan''\<rparr>) frame
          = Inr (map (red_cyan_row cv (nat (offset_var self))) frame)"
    by (rule rc)
  show "process_3d_frame cv (self\<lparr>mode_var := ''anaglyph_green_magenta''\<rparr>) frame
          = Inr (map (map swap_red_green \<circ> red_cyan_row cv (nat (offset_var self))) frame)"
    unfolding green_magenta_from_red_cyan rc by simp
next
  assume h: "resize_ok cv \<and> even (img_width frame)
            \<and> 0 < offset_var self \<and> offset_var self < int (img_width frame)
            \<and> new_height_of (int (img_width frame)) (int (length frame)) (offset_var self)
                = Inr nh
            \<and> 0 < nh \<and> nh \<le> int (length frame)"
  then have ok: "resize_ok cv" and ev: "even (img_width frame)"
    and o: "0 < offset_var self" "offset_var self < int (img_width frame)"
    and nh: "new_height_of (int (img_width frame)) (int (length frame)) (offset_var self)
               = Inr nh"
    and fit: "0 < nh" "nh \<le> int (length frame)"
    by simp_all
  note l = side_by_side_layout[OF assms(1,2) ok ev o nh fit]
  show "process_3d_frame cv (self\<lparr>mode_var := ''side_by_side_cross_eye''\<rparr>) frame
              = Inr (two_halves_rows (length frame) (img_width frame)
                       (nat ((int (length frame) - nh) div 2)) (nat nh)
                       (resize_impl cv (cols frame (Some (offset_var self)) None)
                          (img_width frame div 2) (nat nh))
                       (resize_impl cv (cols frame None (Some (- offset_var self)))
                          (img_width frame div 2) (nat nh)))"
    by (rule l(1))
  show "process_3d_frame cv (self\<lparr>mode_var := ''side_by_side_parallel''\<rparr>) frame
              = Inr (two_halves_rows (length frame) (img_width frame)
                       (nat ((int (length frame) - nh) div 2)) (nat nh)
                       (resize_impl cv (cols frame None (Some (- offset_var self)))
                          (img_width frame div 2) (nat nh))
                       (resize_impl cv (cols frame (Some (offset_var self)) None)
                          (img_width frame div 2) (nat nh)))"
    by (rule l(2))
qed

text \<open>
  The frame of two rows and twenty columns at offset 5, below the range of the slider:
  the halves are one row high, columns 5 to 19 and columns 0 to 14 sampled to width 10,
  over one black row; the anaglyph modes shift the luminance by five columns.
\<close>

theorem stereo_transform_any_offset_witness:
  "rectangular two_row_frame \<and> two_row_frame \<noteq> [] \<and> img_width two_row_frame \<noteq> 0
   \<and> 0 \<le> offset_var \<lparr>mode_var = [], offset_var = 5\<rparr>
   \<and> resize_ok ex_cv \<and> even (img_width two_row_frame)
   \<and> offset_var \<lparr>mode_var = [], offset_var = 5\<rparr> < int (img_width two_row_frame)
   \<and> new_height_of (int (img_width two_row_frame)) (int (length two_row_frame)) 5 = Inr 1
   \<and> process_3d_frame ex_cv \<lparr>mode_var = ''side_by_side_cross_eye'', offset_var = 5\<rparr>
         two_row_frame
       = Inr [map (\<lambda>i. (of_nat i, 0, 0))
                [5, 6, 8, 9, 11, 12, 14, 15, 17, 18, 0, 1, 3, 4, 6, 7, 9, 10, 12, 13],
              replicate 20 (0, 0, 0)]
   \<and> process_3d_frame ex_cv \<lparr>mode_var = ''side_by_side_parallel'', offset_var = 5\<rparr>
         two_row_frame
       = Inr [map (\<lambda>i. (of_nat i, 0, 0))
                [0, 1, 3, 4, 6, 7, 9, 10, 12, 13, 5, 6, 8, 9, 11, 12, 14, 15, 17, 18],
              replicate 20 (0, 0, 0)]
   \<and> process_3d_frame ex_cv \<lparr>mode_var = ''anaglyph_red_cyan'', offset_var = 5\<rparr> two_row_frame
       = Inr (map (red_cyan_row ex_cv 5) two_row_frame)
   \<and> process_3d_frame ex_cv \<lparr>mode_var = ''anaglyph_green_magenta'', offset_var = 5\<rparr>
         two_row_frame
       = Inr (map (map swap_red_green \<circ> red_cyan_row ex_cv 5) two_row_frame)"
proof -
  let ?self = "\<lparr>mode_var = [], offset_var = 5\<rparr>"
  have w: "img_width two_row_frame \<noteq> 0" by (simp add: two_row_frame_shape)
  have o: "0 \<le> offset_var ?self" by simp
  have ev: "even (img_width two_row_frame)" by (simp add: two_row_frame_shape)
  have lt: "offset_var ?self < int (img_width two_row_frame)"
    by (simp add: two_row_frame_shape)
  have nh: "new_height_of (int (img_width two_row_frame)) (int (length two_row_frame)) 5
              = Inr 1"
    by (simp add: two_row_frame_shape two_row_new_height)
  have h: "resize_ok ex_cv \<and> even (img_width two_row_frame)
            \<and> 0 < offset_var ?self \<and> offset_var ?self < int (img_width two_row_frame)
            \<and> new_height_of (int (img_width two_row_frame)) (int (length two_row_frame))
                  (offset_var ?self) = Inr 1
            \<and> 0 < (1 :: int) \<and> 1 \<le> int (length two_row_frame)"
    using nn_resize_ok ev lt nh by (simp add: two_row_frame_shape)
  note t = stereo_transform_any_offset[OF two_row_frame_shape(1,2) w,
      where self = ?self and cv = ex_cv and nh = 1]
  note an = mp[OF conjunct1[OF t] o]
  note sbs = mp[OF conjunct2[OF t] h]
  have ce: "process_3d_frame ex_cv \<lparr>mode_var = ''side_by_side_cross_eye'', offset_var = 5\<rparr>
              two_row_frame
       = Inr [map (\<lambda>i. (of_nat i, 0, 0))
                [5, 6, 8, 9, 11, 12, 14, 15, 17, 18, 0, 1, 3, 4, 6, 7, 9, 10, 12, 13],
              replicate 20 (0, 0, 0)]"
    using conjunct1[OF sbs]
    by (simp add: two_row_frame_shape two_row_halves two_halves_rows_def)
  have pa: "process_3d_frame ex_cv \<lparr>mode_var = ''side_by_side_parallel'', offset_var = 5\<rparr>
              two_row_frame
       = Inr [map (\<lambda>i. (of_nat i, 0, 0))
                [0, 1, 3, 4, 6, 7, 9, 10, 12, 13, 5, 6, 8, 9, 11, 12, 14, 15, 17, 18],
              replicate 20 (0, 0, 0)]"
    using conjunct2[OF sbs]
    by (simp add: two_row_frame_shape two_row_halves two_halves_rows_def)
  have rc: "process_3d_frame ex_cv \<lparr>mode_var = ''anaglyph_red_cyan'', offset_var = 5\<rparr>
              two_row_frame
       = Inr (map (red_cyan_row ex_cv 5) two_row_frame)"
    using conjunct1[OF an] by simp
  have gm: "process_3d_frame ex_cv \<lparr>mode_var = ''anaglyph_green_magenta'', offset_var = 5\<rparr>
              two_row_frame
       = Inr (map (map swap_red_green \<circ> red_cyan_row ex_cv 5) two_row_frame)"
    using conjunct2[OF an] by simp
  show ?thesis
    by (intro conjI two_row_frame_shape(1,2) w o nn_resize_ok ev lt nh ce pa rc gm)
qed

text \<open>
  Claim C4, as stated: on a 640 by 480 frame with offset 10 in cross-eye mode the content
  has black margins of 118 rows above and below. It fails on the code: the content, 243
  rows, starts at row \<open>(480 - 243) // 2 = 118\<close>, which leaves 119 rows below it. On the
  white frame the output has 118 black rows at the top and 119 at the bottom.
\<close>

theorem cross_eye_640x480_margins_counterexample:
  "map_sum id (\<lambda>out. (top_margin out, bottom_margin out))
     (process_3d_frame ex_cv \<lparr>mode_var = ''side_by_side_cross_eye'', offset_var = 10\<rparr> white_frame)
   = Inr (118, 119)"
  by (simp add: white_cross_eye margins_three_bands black_row_replicate)

text \<open>
  Claim C4, amended: for a 640 by 480 frame with offset 10 in cross-eye mode, the frame
  trimmed from the left is 630 columns wide, it is resized to width 320 and height
  \<open>int(320 * 480 / 630) = 243\<close>, and the output is 640 by 480: 118 black rows, then the
  243 rows of the two resized halves side by side, then 119 black rows.
\<close>

theorem cross_eye_640x480_layout:
  assumes "rectangular frame" and "length frame = 480" and "img_width frame = 640"
    and "resize_ok cv" and "offset_var self = 10"
  shows "list_all (\<lambda>r. length r = 630) (cols frame (Some 10) None)
       \<and> new_height_of 640 480 10 = Inr 243
       \<and> process_3d_frame cv (self\<lparr>mode_var := ''side_by_side_cross_eye''\<rparr>) frame
           = Inr (replicate 118 (replicate 640 (0, 0, 0))
                  @ map2 (@) (resize_impl cv (cols frame (Some 10) None) 320 243)
                             (resize_impl cv (cols frame None (Some (- 10))) 320 243)
                  @ replicate 119 (replicate 640 (0, 0, 0)))
       \<and> length (resize_impl cv (cols frame (Some 10) None) 320 243) = 243
       \<and> list_all (\<lambda>r. length r = 320) (resize_impl cv (cols frame (Some 10) None) 320 243)
       \<and> map_sum id (\<lambda>out. (length out, list_all (\<lambda>r. length r = 640) out))
            (process_3d_frame cv (self\<lparr>mode_var := ''side_by_side_cross_eye''\<rparr>) frame)
           = Inr (480, True)"
proof -
  let ?L = "resize_impl cv (cols frame (Some 10) None) 320 243"
  let ?R = "resize_impl cv (cols frame None (Some (- 10))) 320 243"
  have pos: "0 < (10 :: int)" by simp
  have crop: "list_all (\<lambda>r. length r = 630) (cols frame (Some 10) None)"
    using crops_shape(3)[OF assms(1) pos] by (simp add: assms(3))
  have L: "length ?L = 243" "list_all (\<lambda>r. length r = 320) ?L"
    and R: "length ?R = 243" "list_all (\<lambda>r. length r = 320) ?R"
    using assms(4) unfolding resize_ok_def by simp_all
  have out: "process_3d_frame cv (self\<lparr>mode_var := ''side_by_side_cross_eye''\<rparr>) frame
           = Inr (replicate 118 (replicate 640 (0, 0, 0)) @ map2 (@) ?L ?R
                  @ replicate 119 (replicate 640 (0, 0, 0)))"
    using cross_eye_480x640[OF assms] by (simp add: two_halves_rows_def)
  have rows: "list_all (\<lambda>r. length r = 640) (map2 (@) ?L ?R)"
    unfolding list_all_iff
  proof
    fix r assume "r \<in> set (map2 (@) ?L ?R)"
    then obtain x y where xy: "(x, y) \<in> set (zip ?L ?R)" "r = x @ y" by auto
    then have "x \<in> set ?L" "y \<in> set ?R" by (auto dest: set_zip_leftD set_zip_rightD)
    with L(2) R(2) have "length x = 320" "length y = 320" by (simp_all add: list_all_iff)
    with xy(2) show "length r = 640" by simp
  qed
  have dims: "map_sum id (\<lambda>out. (length out, list_all (\<lambda>r. length r = 640) out))
            (process_3d_frame cv (self\<lparr>mode_var := ''side_by_side_cross_eye''\<rparr>) frame)
           = Inr (480, True)"
    unfolding out using rows L(1) R(1) by (simp add: list_all_iff)
  from crop new_height_640x480 out L dims show ?thesis by blast
qed

theorem cross_eye_640x480_layout_witness:
  "rectangular white_frame \<and> length white_frame = 480 \<and> img_width white_frame = 640
   \<and> resize_ok ex_cv \<and> offset_var \<lparr>mode_var = [], offset_var = 10\<rparr> = 10
   \<and> process_3d_frame ex_cv \<lparr>mode_var = ''side_by_side_cross_eye'', offset_var = 10\<rparr> white_frame
       = Inr (replicate 118 (replicate 640 (0, 0, 0))
              @ map2 (@) (replicate 243 (replicate 320 (255, 255, 255)))
                         (replicate 243 (replicate 320 (255, 255, 255)))
              @ replicate 119 (replicate 640 (0, 0, 0)))"
proof -
  let ?self = "\<lparr>mode_var = [], offset_var = 10\<rparr>"
  have o: "offset_var ?self = 10" by simp
  have r: "resize_impl ex_cv (replicate 480 (replicate 630 (255, 255, 255))) 320 243
             = replicate 243 (replicate 320 (255, 255, 255))"
    by (simp add: ex_cv_def nn_resize_const)
  from cross_eye_640x480_layout[OF white_frame_shape nn_resize_ok o]
  have "process_3d_frame ex_cv (?self\<lparr>mode_var := ''side_by_side_cross_eye''\<rparr>) white_frame
       = Inr (replicate 118 (replicate 640 (0, 0, 0))
              @ map2 (@) (replicate 243 (replicate 320 (255, 255, 255)))
                         (replicate 243 (replicate 320 (255, 255, 255)))
              @ replicate 119 (replicate 640 (0, 0, 0)))"
    unfolding white_crops r by blast
  with white_frame_shape nn_resize_ok show ?thesis by simp
qed

section \<open>Properties of the offer handler\<close>

lemma offer_missing_sdp:
  assumes "params ''sdp'' = None"
  shows "offer_handler eng c self (JsonObject params) =
           (\<lparr>status = 500, content_type = ''text/plain'',
             body = PlainText ''Missing required SDP parameters''\<rparr>, self)"
  using assms by (simp add: offer_handler_def error_response_def split: option.splits)

lemma offer_success:
  assumes "params ''sdp'' = Some s" "params ''type'' = Some t"
    and "session_description eng s t = Inr offer"
    and "SideBySideVideoTrack c = Inr trk"
    and "setRemoteDescription eng (addTransceiver eng (RTCPeerConnection eng) trk) offer = Inr pc1"
    and "createAnswer eng pc1 = Inr answer"
    and "setLocalDescription eng pc1 answer = Inr pc2"
    and "localDescription eng pc2 = Some d"
  shows "offer_handler eng c self (JsonObject params) =
           (\<lparr>status = 200, content_type = ''application/json'',
             body = JsonText [(''sdp'', sdp d), (''type'', kind_of d)]\<rparr>,
            \<lparr>pc = Some pc2, video_track = Some trk\<rparr>)"
  using assms
  by (simp add: offer_handler_def create_new_connection_def reset_connection_def Let_def)

text \<open>
  Claim C8, as stated: a \<open>POST /offer\<close> whose body lacks \<open>sdp\<close> gets status 500 with a JSON
  body that contains an error string. It fails on the code: the body of the response is
  the text of the exception, with the content type of plain text, not JSON.
\<close>

theorem offer_missing_sdp_counterexample:
  "fst (offer_handler ex_engine ex_capture idle_publisher (JsonObject [''type'' \<mapsto> ''offer'']))
     = \<lparr>status = 500, content_type = ''text/plain'',
        body = PlainText ''Missing required SDP parameters''\<rparr>"
proof -
  have "[''type'' \<mapsto> ''offer''] ''sdp'' = None" by simp
  then show ?thesis by (simp only: offer_missing_sdp fst_conv)
qed

text \<open>
  Claim C8, amended: a \<open>POST /offer\<close> whose body is a JSON object without \<open>sdp\<close> gets
  status 500 with a plain-text body, the message of the exception; it leaves the
  publisher as it was, so that the next request is handled as if the failed one had not
  been made; and a next request with \<open>sdp\<close> and \<open>type\<close>, on which the engine and the
  construction of the track succeed, gets status 200 with the JSON object of the \<open>sdp\<close> and
  the \<open>type\<close> of the engine's local description.
\<close>

theorem offer_missing_sdp_then_valid:
  assumes "params ''sdp'' = None"
  shows "offer_handler eng c self (JsonObject params) =
           (\<lparr>status = 500, content_type = ''text/plain'',
             body = PlainText ''Missing required SDP parameters''\<rparr>, self)
       \<and> offer_handler eng c (snd (offer_handler eng c self (JsonObject params))) request
           = offer_handler eng c self request
       \<and> (valid ''sdp'' = Some s \<and> valid ''type'' = Some t
            \<and> session_description eng s t = Inr offer
            \<and> SideBySideVideoTrack c = Inr trk
            \<and> setRemoteDescription eng (addTransceiver eng (RTCPeerConnection eng) trk) offer
                = Inr pc1
            \<and> createAnswer eng pc1 = Inr answer
            \<and> setLocalDescription eng pc1 answer = Inr pc2
            \<and> localDescription eng pc2 = Some d
            \<longrightarrow> offer_handler eng c (snd (offer_handler eng c self (JsonObject params)))
                  (JsonObject valid)
                = (\<lparr>status = 200, content_type = ''application/json'',
                    body = JsonText [(''sdp'', sdp d), (''type'', kind_of d)]\<rparr>,
                   \<lparr>pc = Some pc2, video_track = Some trk\<rparr>))"
proof -
  have m: "offer_handler eng c self (JsonObject params) =
           (\<lparr>status = 500, content_type = ''text/plain'',
             body = PlainText ''Missing required SDP parameters''\<rparr>, self)"
    using assms by (rule offer_missing_sdp)
  show ?thesis
    unfolding m using offer_success[of valid s t eng offer c trk pc1 answer pc2 d self]
    by simp
qed

theorem offer_missing_sdp_then_valid_witness:
  "[''type'' \<mapsto> ''offer''] ''sdp'' = None
   \<and> offer_handler ex_engine ex_capture idle_publisher (JsonObject [''type'' \<mapsto> ''offer''])
       = (\<lparr>status = 500, content_type = ''text/plain'',
           body = PlainText ''Missing required SDP parameters''\<rparr>, idle_publisher)
   \<and> offer_handler ex_engine ex_capture
         (snd (offer_handler ex_engine ex_capture idle_publisher
                 (JsonObject [''type'' \<mapsto> ''offer''])))
         (JsonObject [''sdp'' \<mapsto> ''v=0 offer'', ''type'' \<mapsto> ''offer''])
       = (\<lparr>status = 200, content_type = ''application/json'',
           body = JsonText [(''sdp'', ''v=0 answer''), (''type'', ''answer'')]\<rparr>,
          \<lparr>pc = Some (Some \<lparr>sdp = ''v=0 offer'', kind_of = ''offer''\<rparr>,
                        Some \<lparr>sdp = ''v=0 answer'', kind_of = ''answer''\<rparr>),
            video_track = Some ex_track\<rparr>)"
proof -
  let ?valid = "[''sdp'' \<mapsto> ''v=0 offer'', ''type'' \<mapsto> ''offer'']"
  let ?offer = "\<lparr>sdp = ''v=0 offer'', kind_of = ''offer''\<rparr>"
  let ?answer = "\<lparr>sdp = ''v=0 answer'', kind_of = ''answer''\<rparr>"
  have h: "[''type'' \<mapsto> ''offer''] ''sdp'' = None" by simp
  have v: "?valid ''sdp'' = Some ''v=0 offer''" "?valid ''type'' = Some ''offer''" by simp_all
  have e: "session_description ex_engine ''v=0 offer'' ''offer'' = Inr ?offer"
    "setRemoteDescription ex_engine
       (addTransceiver ex_engine (RTCPeerConnection ex_engine) ex_track) ?offer
       = Inr (Some ?offer, None)"
    "createAnswer ex_engine (Some ?offer, None) = Inr ?answer"
    "setLocalDescription ex_engine (Some ?offer, None) ?answer = Inr (Some ?offer, Some ?answer)"
    "localDescription ex_engine (Some ?offer, Some ?answer) = Some ?answer"
    by (simp_all add: ex_engine_def)
  note w = offer_missing_sdp_then_valid[where params = "[''type'' \<mapsto> ''offer'']"
      and eng = ex_engine and c = ex_capture and self = idle_publisher and valid = ?valid
      and s = "''v=0 offer''" and t = "''offer''" and offer = ?offer and trk = ex_track
      and ?pc1.0 = "(Some ?offer, None)" and answer = ?answer
      and ?pc2.0 = "(Some ?offer, Some ?answer)" and d = ?answer and request = NotJson]
  have prem: "?valid ''sdp'' = Some ''v=0 offer'' \<and> ?valid ''type'' = Some ''offer''
       \<and> session_description ex_engine ''v=0 offer'' ''offer'' = Inr ?offer
       \<and> SideBySideVideoTrack ex_capture = Inr ex_track
       \<and> setRemoteDescription ex_engine
             (addTransceiver ex_engine (RTCPeerConnection ex_engine) ex_track) ?offer
           = Inr (Some ?offer, None)
       \<and> createAnswer ex_engine (Some ?offer, None) = Inr ?answer
       \<and> setLocalDescription ex_engine (Some ?offer, None) ?answer
           = Inr (Some ?offer, Some ?answer)
       \<and> localDescription ex_engine (Some ?offer, Some ?answer) = Some ?answer"
    by (intro conjI v e ex_track_init)
  note c = w[OF h]
  note first = conjunct1[OF c]
  note later = mp[OF conjunct2[OF conjunct2[OF c]] prem]
  show ?thesis
    by (intro conjI h first) (use later in simp)
qed

end
